theory Spec2Isabelle
  imports Complex_Main "HOL-Library.Sublist"
begin

section \<open>Python values\<close>

text \<open>
  The program is one Python module, \<^verbatim>\<open>main.py\<close>, that keeps a Google sheet and an
  amoCRM pipeline in step. This theory embeds its reconciliation core: the phone
  normaliser, the request executor, the push path (\<^verbatim>\<open>process_new_rows\<close>), the pull
  path (\<^verbatim>\<open>sync_from_amocrm\<close>) and the batch writer (\<^verbatim>\<open>commit_sheet_changes\<close>).

  A Python \<^verbatim>\<open>str\<close> is modelled as a \<^typ>\<open>string\<close> whose characters are the code points
  0 to 255 (Latin-1). In that range the regular expression class \<^verbatim>\<open>\d\<close> is exactly
  the ten ASCII digits, \<^verbatim>\<open>str.isdigit\<close> accepts in addition the three superscript
  digits, and \<^verbatim>\<open>str.strip\<close> removes the twelve white-space code points listed below.
  Strings with code points above 255 are outside the model.
\<close>

definition is_decimal :: "char \<Rightarrow> bool" where
  \<comment> \<open>a character that \<^verbatim>\<open>\d\<close> matches, so one that \<^verbatim>\<open>\D\<close> does not\<close>
  "is_decimal c \<longleftrightarrow> 48 \<le> (of_char c :: nat) \<and> (of_char c :: nat) \<le> 57"

definition isdigit_char :: "char \<Rightarrow> bool" where
  \<comment> \<open>\<^verbatim>\<open>str.isdigit\<close> on one character: a decimal digit or one of the superscripts 2, 3, 1\<close>
  "isdigit_char c \<longleftrightarrow>
     is_decimal c \<or> (of_char c :: nat) = 178 \<or> (of_char c :: nat) = 179 \<or> (of_char c :: nat) = 185"

definition isspace_char :: "char \<Rightarrow> bool" where
  "isspace_char c \<longleftrightarrow>
     (9 \<le> (of_char c :: nat) \<and> (of_char c :: nat) \<le> 13) \<or>
     (28 \<le> (of_char c :: nat) \<and> (of_char c :: nat) \<le> 32) \<or>
     (of_char c :: nat) = 133 \<or> (of_char c :: nat) = 160"

definition strip :: "string \<Rightarrow> string" where
  "strip s = rev (dropWhile isspace_char (rev (dropWhile isspace_char s)))"

definition isdigit :: "string \<Rightarrow> bool" where
  \<comment> \<open>\<^verbatim>\<open>s.isdigit()\<close>: at least one character, and every character a digit\<close>
  "isdigit s \<longleftrightarrow> s \<noteq> [] \<and> list_all isdigit_char s"

definition startswith :: "string \<Rightarrow> string \<Rightarrow> bool" where
  "startswith s p \<longleftrightarrow> take (length p) s = p"

definition digit_value :: "char \<Rightarrow> nat" where
  "digit_value c = of_char c - 48"

definition decimal_value :: "string \<Rightarrow> nat" where
  "decimal_value s = foldl (\<lambda>a c. 10 * a + digit_value c) 0 s"

definition digit_char :: "nat \<Rightarrow> char" where
  "digit_char n = char_of (48 + n mod 10)"

fun str_nat :: "nat \<Rightarrow> string" where
  "str_nat n = (if n < 10 then [digit_char n] else str_nat (n div 10) @ [digit_char n])"

declare str_nat.simps [simp del]

definition str_int :: "int \<Rightarrow> string" where
  \<comment> \<open>\<^verbatim>\<open>str(i)\<close> for an integer\<close>
  "str_int i = (if i < 0 then CHR ''-'' # str_nat (nat (- i)) else str_nat (nat i))"

text \<open>
  Every exception the modelled code can raise is a value of \<open>error\<close>; a function that
  can raise returns \<open>error + 'a\<close>, with \<open>Inl\<close> for the exception.
\<close>

datatype error =
    TransportError           \<comment> \<open>\<^verbatim>\<open>httpx.HTTPError\<close> raised by the transport\<close>
  | HTTPStatusError nat      \<comment> \<open>\<^verbatim>\<open>raise_for_status\<close> on a response that is not 2xx\<close>
  | HttpError string         \<comment> \<open>the spreadsheet client's error, with its text\<close>
  | HTTPException            \<comment> \<open>no usable spreadsheet credentials\<close>
  | JSONDecodeError
  | KeyError
  | IndexError
  | TypeError
  | AttributeError
  | ValueError
  | UnboundLocalError

text \<open>
  What \<^verbatim>\<open>r.json()\<close> returns: \<^verbatim>\<open>None\<close>, booleans, integers, strings, lists and
  dictionaries with string keys. Floating-point numbers are left out. An object is an
  association list in which the first entry of a key is the one that counts. The JSON
  decoder reads an integer with \<^verbatim>\<open>int\<close>, so the integers of a response have at most 4300
  digits and \<^verbatim>\<open>str\<close> of them does not raise; larger integers are outside the model.
\<close>

datatype json =
    JNull
  | JBool bool
  | JNum int
  | JStr string
  | JArr "json list"
  | JObj "(string \<times> json) list"

fun truthy :: "json \<Rightarrow> bool" where
  "truthy JNull = False"
| "truthy (JBool b) = b"
| "truthy (JNum n) = (n \<noteq> 0)"
| "truthy (JStr s) = (s \<noteq> [])"
| "truthy (JArr xs) = (xs \<noteq> [])"
| "truthy (JObj kvs) = (kvs \<noteq> [])"

definition py_or :: "json \<Rightarrow> json \<Rightarrow> json" where
  \<comment> \<open>\<^verbatim>\<open>a or b\<close>\<close>
  "py_or a b = (if truthy a then a else b)"

fun dict_get :: "json \<Rightarrow> string \<Rightarrow> json \<Rightarrow> error + json" where
  \<comment> \<open>\<^verbatim>\<open>x.get(key, default)\<close>; only a dictionary has it\<close>
  "dict_get (JObj kvs) k dflt = (case map_of kvs k of Some v \<Rightarrow> Inr v | None \<Rightarrow> Inr dflt)"
| "dict_get _ k dflt = Inl AttributeError"

fun subscript :: "json \<Rightarrow> string \<Rightarrow> error + json" where
  \<comment> \<open>\<^verbatim>\<open>x["key"]\<close>\<close>
  "subscript (JObj kvs) k = (case map_of kvs k of Some v \<Rightarrow> Inr v | None \<Rightarrow> Inl KeyError)"
| "subscript _ k = Inl TypeError"

fun subscript0 :: "json \<Rightarrow> error + json" where
  \<comment> \<open>\<^verbatim>\<open>x[0]\<close>\<close>
  "subscript0 (JArr []) = Inl IndexError"
| "subscript0 (JArr (x # xs)) = Inr x"
| "subscript0 (JStr []) = Inl IndexError"
| "subscript0 (JStr (c # cs)) = Inr (JStr [c])"
| "subscript0 (JObj kvs) = Inl KeyError"
| "subscript0 _ = Inl TypeError"

fun py_iter :: "json \<Rightarrow> error + json list" where
  \<comment> \<open>the items a \<^verbatim>\<open>for\<close> loop over the value visits\<close>
  "py_iter (JArr xs) = Inr xs"
| "py_iter (JObj kvs) = Inr (map JStr (rev (remdups (rev (map fst kvs)))))"
| "py_iter (JStr s) = Inr (map (\<lambda>c. JStr [c]) s)"
| "py_iter _ = Inl TypeError"

text \<open>
  Keys of the dictionaries the program builds from CRM values. Python compares and
  hashes \<^verbatim>\<open>True\<close> as 1 and \<^verbatim>\<open>False\<close> as 0; lists and dictionaries cannot be keys.
\<close>

datatype pykey = KNone | KInt int | KStr string

fun key_of :: "json \<Rightarrow> error + pykey" where
  "key_of JNull = Inr KNone"
| "key_of (JBool b) = Inr (KInt (if b then 1 else 0))"
| "key_of (JNum n) = Inr (KInt n)"
| "key_of (JStr s) = Inr (KStr s)"
| "key_of _ = Inl TypeError"

section \<open>Contact normaliser\<close>

definition normalize_phone :: "string \<Rightarrow> string" where
  "normalize_phone raw =
     (if raw = [] then []
      else
        let d = filter is_decimal raw;
            d = (if startswith d ''8'' \<and> length d = 11 then ''7'' @ drop 1 d else d);
            d = (if length d = 10 then ''7'' @ d else d)
        in d)"

definition normalize_phone_spec :: "string \<Rightarrow> string" where
  \<comment> \<open>the specification's wording of the normaliser, to compare with the code\<close>
  "normalize_phone_spec raw =
     (let d = filter is_decimal raw
      in if length d = 11 \<and> hd d = CHR ''8'' then CHR ''7'' # tl d
         else if length d = 10 then CHR ''7'' # d
         else d)"

section \<open>The outside world\<close>

text \<open>
  The program talks to two services. Everything it does to them is recorded, in order,
  in a trace (\<open>world\<close>): each HTTP request to the CRM with its outcome, each call of the
  spreadsheet client with its outcome, and each \<^verbatim>\<open>sleep\<close> with its delay in seconds. The
  services are part of the environment \<open>env\<close>: \<open>crm_backend\<close> and \<open>sheets_backend\<close> give
  the outcome of a call from the trace so far and the call, so any behaviour over time
  can be described. The environment also holds the configuration constants of the
  module, whether \<^verbatim>\<open>ensure_credentials\<close> succeeds (\<open>sheet_credentials\<close>), and the
  interpreter's \<^verbatim>\<open>repr\<close> of lists and dictionaries.

  An HTTP call either returns a response (its status code and, when the body is JSON,
  the decoded body) or raises \<^verbatim>\<open>httpx.HTTPError\<close> (\<open>TransportFails\<close>). A spreadsheet call
  either executes, returning the rows it read if it was a read, or raises \<^verbatim>\<open>HttpError\<close>
  with the text that \<^verbatim>\<open>str(e)\<close> gives. The headers and the timeout of a request are the
  same in every call and are left out; the variables that \<^verbatim>\<open>amo_headers\<close> requires are
  checked when the module is loaded.
\<close>

datatype http_method = GET | POST

record http_request =
  verb :: http_method
  url :: string
  params :: "(string \<times> json) list"
  body :: "json option"

record response =
  status_code :: nat
  content :: "json option"

datatype http_outcome = Responds response | TransportFails

datatype sheets_call =
    ValuesGet string
  | ValuesUpdate string "json list list"
  | ValuesBatchUpdate "(string \<times> json list list) list"
  | ValuesAppend string "json list list"

datatype sheets_outcome = Executes "string list list option" | SheetsFails string

datatype event = Http http_request http_outcome | Sleep rat | Sheets sheets_call sheets_outcome

type_synonym world = "event list"

record env =
  AMO_BASE_URL :: string
  AMO_PIPELINE_ID :: int
  AMO_STATUS_ID :: int
  SHEET_RANGE :: string
  sheet_credentials :: bool
  repr :: "json \<Rightarrow> string"
  crm_backend :: "world \<Rightarrow> http_request \<Rightarrow> http_outcome"
  sheets_backend :: "world \<Rightarrow> sheets_call \<Rightarrow> sheets_outcome"

definition httpx_request :: "env \<Rightarrow> http_request \<Rightarrow> world \<Rightarrow> http_outcome \<times> world" where
  "httpx_request e req w = (let out = crm_backend e w req in (out, w @ [Http req out]))"

definition sleep :: "rat \<Rightarrow> world \<Rightarrow> world" where
  "sleep d w = w @ [Sleep d]"

definition raise_for_status :: "response \<Rightarrow> error + unit" where
  "raise_for_status r =
     (if 200 \<le> status_code r \<and> status_code r < 300 then Inr ()
      else Inl (HTTPStatusError (status_code r)))"

function amo_request_loop ::
  "env \<Rightarrow> http_request \<Rightarrow> nat \<Rightarrow> response option \<Rightarrow> world \<Rightarrow> (error + response) \<times> world" where
  "amo_request_loop e req attempt prev w =
     (if attempt < 5 then
        (case httpx_request e req w of
           (TransportFails, w1) \<Rightarrow>
             if attempt = 4 then (Inl TransportError, w1)
             else amo_request_loop e req (attempt + 1) prev (sleep (2 ^ attempt / 2) w1)
         | (Responds r, w1) \<Rightarrow>
             if status_code r = 429 \<or> (500 \<le> status_code r \<and> status_code r < 600) then
               (case (if attempt = 4 then raise_for_status r else Inr ()) of
                  Inl err \<Rightarrow> (Inl err, w1)
                | Inr _ \<Rightarrow> amo_request_loop e req (attempt + 1) (Some r) (sleep (2 ^ attempt / 2) w1))
             else (Inr r, w1))
      else (case prev of Some r \<Rightarrow> (Inr r, w) | None \<Rightarrow> (Inl UnboundLocalError, w)))"
  by pat_completeness auto
termination
  by (relation "measure (\<lambda>(e, req, attempt, prev, w). 5 - attempt)") auto

definition amo_request ::
  "env \<Rightarrow> http_method \<Rightarrow> string \<Rightarrow> (string \<times> json) list \<Rightarrow> json option \<Rightarrow> world
     \<Rightarrow> (error + response) \<times> world" where
  "amo_request e m u ps b w =
     amo_request_loop e \<lparr>verb = m, url = u, params = ps, body = b\<rparr> 0 None w"

definition ebind :: "error + 'a \<Rightarrow> ('a \<Rightarrow> error + 'b) \<Rightarrow> error + 'b" where
  "ebind m f = (case m of Inl err \<Rightarrow> Inl err | Inr x \<Rightarrow> f x)"

definition sbind ::
  "(error + 'a) \<times> world \<Rightarrow> ('a \<Rightarrow> world \<Rightarrow> (error + 'b) \<times> world) \<Rightarrow> (error + 'b) \<times> world" where
  "sbind m f = (case m of (Inl err, w) \<Rightarrow> (Inl err, w) | (Inr x, w) \<Rightarrow> f x w)"

definition response_json :: "response \<Rightarrow> error + json" where
  "response_json r = (case content r of None \<Rightarrow> Inl JSONDecodeError | Some j \<Rightarrow> Inr j)"

definition py_str :: "env \<Rightarrow> json \<Rightarrow> string" where
  \<comment> \<open>\<^verbatim>\<open>str(j)\<close>; for a list or a dictionary it is the interpreter's \<^verbatim>\<open>repr\<close>, which the
      environment supplies\<close>
  "py_str e j =
     (case j of
        JNull \<Rightarrow> ''None''
      | JBool b \<Rightarrow> (if b then ''True'' else ''False'')
      | JNum n \<Rightarrow> str_int n
      | JStr s \<Rightarrow> s
      | _ \<Rightarrow> repr e j)"

fun str_contains :: "string \<Rightarrow> string \<Rightarrow> bool" where
  "str_contains sub [] = (sub = [])"
| "str_contains sub (c # cs) = (startswith (c # cs) sub \<or> str_contains sub cs)"

section \<open>Spreadsheet access\<close>

definition get_sheet_service :: "env \<Rightarrow> world \<Rightarrow> (error + unit) \<times> world" where
  "get_sheet_service e w = (if sheet_credentials e then (Inr (), w) else (Inl HTTPException, w))"

definition sheets_execute :: "env \<Rightarrow> sheets_call \<Rightarrow> world \<Rightarrow> sheets_outcome \<times> world" where
  "sheets_execute e call w = (let out = sheets_backend e w call in (out, w @ [Sheets call out]))"

definition sheet_name :: "env \<Rightarrow> string" where
  "sheet_name e = takeWhile (\<lambda>c. c \<noteq> CHR ''!'') (SHEET_RANGE e)"

definition read_rows :: "env \<Rightarrow> world \<Rightarrow> (error + string list list) \<times> world" where
  "read_rows e w =
     sbind (get_sheet_service e w) (\<lambda>service w.
       case sheets_execute e (ValuesGet (SHEET_RANGE e)) w of
         (SheetsFails msg, w) \<Rightarrow> (Inl (HttpError msg), w)
       | (Executes res, w) \<Rightarrow> (Inr (case res of None \<Rightarrow> [] | Some vs \<Rightarrow> vs), w))"

definition read_sheet_all :: "env \<Rightarrow> world \<Rightarrow> (error + string list list) \<times> world" where
  "read_sheet_all e w =
     sbind (get_sheet_service e w) (\<lambda>service w.
       case sheets_execute e (ValuesGet (SHEET_RANGE e)) w of
         (SheetsFails msg, w) \<Rightarrow> (Inl (HttpError msg), w)
       | (Executes res, w) \<Rightarrow> (Inr (case res of None \<Rightarrow> [] | Some vs \<Rightarrow> vs), w))"

definition write_deal_id :: "env \<Rightarrow> nat \<Rightarrow> json \<Rightarrow> world \<Rightarrow> (error + unit) \<times> world" where
  "write_deal_id e row_index_zero_based deal w =
     (let target_range = sheet_name e @ ''!E'' @ str_nat (row_index_zero_based + 2)
      in sbind (get_sheet_service e w) (\<lambda>service w.
           case sheets_execute e (ValuesUpdate target_range [[JStr (py_str e deal)]]) w of
             (SheetsFails msg, w) \<Rightarrow> (Inl (HttpError msg), w)
           | (Executes res, w) \<Rightarrow> (Inr (), w)))"

function execute_retrying ::
  "env \<Rightarrow> sheets_call \<Rightarrow> nat \<Rightarrow> world \<Rightarrow> (error + unit) \<times> world" where
  "execute_retrying e call attempt w =
     (case sheets_execute e call w of
        (Executes res, w1) \<Rightarrow> (Inr (), w1)
      | (SheetsFails msg, w1) \<Rightarrow>
          if str_contains ''RATE_LIMIT_EXCEEDED'' msg \<and> attempt < 5
          then execute_retrying e call (attempt + 1) (sleep (2 ^ attempt) w1)
          else (Inl (HttpError msg), w1))"
  by pat_completeness auto
termination
  by (relation "measure (\<lambda>(e, call, attempt, w). 5 - attempt)") auto

definition py_range :: "nat \<Rightarrow> int \<Rightarrow> error + nat list" where
  "py_range n step =
     (if step = 0 then Inl ValueError
      else if step < 0 then Inr []
      else Inr (map (\<lambda>k. k * nat step) [0 ..< (n + nat step - 1) div nat step]))"

definition update_data :: "env \<Rightarrow> (nat \<times> json list) list \<Rightarrow> (string \<times> json list list) list" where
  "update_data e chunk =
     map (\<lambda>(row_idx, vals).
            let start_row = row_idx + 2;
                rng = sheet_name e @ ''!A'' @ str_nat start_row @ '':F'' @ str_nat start_row
            in (rng, [vals])) chunk"

fun update_batches ::
  "env \<Rightarrow> (nat \<times> json list) list \<Rightarrow> int \<Rightarrow> nat list \<Rightarrow> world \<Rightarrow> (error + unit) \<times> world" where
  "update_batches e updates chunk_size [] w = (Inr (), w)"
| "update_batches e updates chunk_size (i # rest) w =
     (let chunk = take (nat chunk_size) (drop i updates);
          data = update_data e chunk
      in sbind (execute_retrying e (ValuesBatchUpdate data) 0 w)
           (\<lambda>ok w. update_batches e updates chunk_size rest w))"

fun append_batches ::
  "env \<Rightarrow> json list list \<Rightarrow> nat list \<Rightarrow> world \<Rightarrow> (error + unit) \<times> world" where
  "append_batches e appends [] w = (Inr (), w)"
| "append_batches e appends (i # rest) w =
     (let values_batch = take 500 (drop i appends)
      in sbind (execute_retrying e (ValuesAppend (sheet_name e @ ''!A:F'') values_batch) 0 w)
           (\<lambda>ok w. append_batches e appends rest w))"

definition commit_sheet_changes ::
  "env \<Rightarrow> (nat \<times> json list) list \<Rightarrow> json list list \<Rightarrow> int \<Rightarrow> world \<Rightarrow> (error + unit) \<times> world" where
  "commit_sheet_changes e updates appends chunk_size w =
     sbind (get_sheet_service e w) (\<lambda>service w.
       case py_range (length updates) chunk_size of
         Inl err \<Rightarrow> (Inl err, w)
       | Inr starts \<Rightarrow>
           sbind (update_batches e updates chunk_size starts w) (\<lambda>ok w.
             case py_range (length appends) 500 of
               Inl err \<Rightarrow> (Inl err, w)
             | Inr starts \<Rightarrow> append_batches e appends starts w))"

section \<open>CRM operations\<close>

definition amo_find_contact :: "env \<Rightarrow> string \<Rightarrow> world \<Rightarrow> (error + json) \<times> world" where
  "amo_find_contact e query w =
     (if query = [] then (Inr JNull, w)
      else
        let q = (if CHR ''@'' \<notin> set query then normalize_phone query else query);
            url = AMO_BASE_URL e @ ''/api/v4/contacts''
        in sbind (amo_request e GET url [(''query'', JStr q)] None w) (\<lambda>r w.
             if status_code r = 200 then
               (ebind (response_json r) (\<lambda>j.
                ebind (dict_get j ''_embedded'' (JObj [])) (\<lambda>emb.
                ebind (dict_get emb ''contacts'' (JArr [])) (\<lambda>items.
                  if truthy items
                  then ebind (subscript0 items) (\<lambda>it. subscript it ''id'')
                  else Inr JNull))), w)
             else (Inr JNull, w)))"

definition amo_create_contact ::
  "env \<Rightarrow> string \<Rightarrow> string \<Rightarrow> string \<Rightarrow> world \<Rightarrow> (error + json) \<times> world" where
  "amo_create_contact e nm ph em w =
     (let url = AMO_BASE_URL e @ ''/api/v4/contacts'';
          nphone = normalize_phone ph;
          cfv = (if nphone \<noteq> []
                 then [JObj [(''field_code'', JStr ''PHONE''),
                             (''values'', JArr [JObj [(''value'', JStr nphone)]])]]
                 else [])
                @ (if em \<noteq> []
                   then [JObj [(''field_code'', JStr ''EMAIL''),
                               (''values'', JArr [JObj [(''value'', JStr em)]])]]
                   else []);
          data = JArr [JObj [(''name'', JStr (if nm \<noteq> [] then nm else [])),
                             (''custom_fields_values'', JArr cfv)]]
      in sbind (amo_request e POST url [] (Some data) w) (\<lambda>r w.
           (ebind (raise_for_status r) (\<lambda>ok.
            ebind (response_json r) (\<lambda>j.
            ebind (subscript j ''_embedded'') (\<lambda>emb.
            ebind (subscript emb ''contacts'') (\<lambda>cs.
            ebind (subscript0 cs) (\<lambda>c. subscript c ''id''))))), w)))"

definition amo_create_lead :: "env \<Rightarrow> int \<Rightarrow> json \<Rightarrow> world \<Rightarrow> (error + json) \<times> world" where
  "amo_create_lead e price contact w =
     (let url = AMO_BASE_URL e @ ''/api/v4/leads'';
          data = JArr [JObj [(''price'', JNum (if isdigit (str_int price) then price else 0)),
                             (''status_id'', JNum (AMO_STATUS_ID e)),
                             (''pipeline_id'', JNum (AMO_PIPELINE_ID e)),
                             (''_embedded'', JObj [(''contacts'', JArr [JObj [(''id'', contact)]])])]]
      in case httpx_request e \<lparr>verb = POST, url = url, params = [], body = Some data\<rparr> w of
           (TransportFails, w) \<Rightarrow> (Inl TransportError, w)
         | (Responds r, w) \<Rightarrow>
             (ebind (raise_for_status r) (\<lambda>ok.
              ebind (response_json r) (\<lambda>j.
              ebind (subscript j ''_embedded'') (\<lambda>emb.
              ebind (subscript emb ''leads'') (\<lambda>ls.
              ebind (subscript0 ls) (\<lambda>l. subscript l ''id''))))), w))"

section \<open>Push: sheet to CRM\<close>

record parsed_row =
  name :: string
  phone :: string
  email :: string
  budget :: int
  deal_id :: string

definition int_space_char :: "char \<Rightarrow> bool" where
  \<comment> \<open>the white space \<^verbatim>\<open>int\<close> accepts around a number: unlike \<^verbatim>\<open>str.strip\<close> it does not
      accept the four separators 28 to 31\<close>
  "int_space_char c \<longleftrightarrow>
     (9 \<le> (of_char c :: nat) \<and> (of_char c :: nat) \<le> 13) \<or>
     (of_char c :: nat) = 32 \<or> (of_char c :: nat) = 133 \<or> (of_char c :: nat) = 160"

definition int_max_str_digits :: nat where
  \<comment> \<open>the interpreter's default limit on the number of digits \<^verbatim>\<open>int\<close> converts\<close>
  "int_max_str_digits = 4300"

definition int_of_digits :: "string \<Rightarrow> error + int" where
  \<comment> \<open>\<^verbatim>\<open>int(s)\<close> for a string whose stripped form passes \<^verbatim>\<open>isdigit\<close>, so one without sign
      or underscore. The argument is the cell itself, not the stripped cell: \<^verbatim>\<open>int\<close> removes
      its own white space, refuses the separators 28 to 31 that \<^verbatim>\<open>strip\<close> removed, refuses
      the superscript digits that \<^verbatim>\<open>isdigit\<close> accepted, and refuses more than 4300 digits\<close>
  "int_of_digits s =
     (let t = rev (dropWhile int_space_char (rev (dropWhile int_space_char s)))
      in if t \<noteq> [] \<and> list_all is_decimal t \<and> length t \<le> int_max_str_digits
         then Inr (int (decimal_value t))
         else Inl ValueError)"

definition parse_row :: "string list \<Rightarrow> error + parsed_row" where
  "parse_row cells =
     (let nm = (if length cells > 0 then strip (cells ! 0) else []);
          ph = (if length cells > 1 then strip (cells ! 1) else []);
          em = (if length cells > 2 then strip (cells ! 2) else [])
      in ebind (if length cells > 3 \<and> isdigit (strip (cells ! 3))
                then int_of_digits (cells ! 3) else Inr 0) (\<lambda>bd.
           let dl = (if length cells > 4 then strip (cells ! 4) else [])
           in Inr \<lparr>name = nm, phone = ph, email = em, budget = bd, deal_id = dl\<rparr>))"

record created_entry =
  row :: nat
  lead_id :: json
  contact_id :: json

record push_summary =
  created :: "created_entry list"
  checked_rows :: nat

fun find_contact :: "env \<Rightarrow> string list \<Rightarrow> world \<Rightarrow> (error + json) \<times> world" where
  \<comment> \<open>the loop \<^verbatim>\<open>for q in [email, phone]\<close>; \<^verbatim>\<open>JNull\<close> when \<^verbatim>\<open>contact_id\<close> stays \<^verbatim>\<open>None\<close>\<close>
  "find_contact e [] w = (Inr JNull, w)"
| "find_contact e (q # qs) w =
     sbind (if q \<noteq> [] then amo_find_contact e q w else (Inr JNull, w)) (\<lambda>cid w.
       if truthy cid then (Inr cid, w) else find_contact e qs w)"

definition process_row ::
  "env \<Rightarrow> nat \<Rightarrow> string list \<Rightarrow> created_entry list \<Rightarrow> world
     \<Rightarrow> (error + created_entry list) \<times> world" where
  \<comment> \<open>one pass through the body of the loop over the rows\<close>
  "process_row e idx cells acc w =
     (case parse_row cells of
        Inl err \<Rightarrow> (Inl err, w)
      | Inr data \<Rightarrow>
          if deal_id data \<noteq> [] then (Inr acc, w)
          else
            sbind (find_contact e [email data, phone data] w) (\<lambda>found w.
            sbind (if \<not> truthy found
                   then amo_create_contact e (name data) (phone data) (email data) w
                   else (Inr found, w)) (\<lambda>cid w.
            sbind (amo_create_lead e (budget data) cid w) (\<lambda>lead w.
            sbind (write_deal_id e idx lead w) (\<lambda>ok w.
              (Inr (acc @ [\<lparr>row = idx + 2, lead_id = lead, contact_id = cid\<rparr>]), w))))))"

fun process_rows ::
  "env \<Rightarrow> nat \<Rightarrow> string list list \<Rightarrow> created_entry list \<Rightarrow> world
     \<Rightarrow> (error + created_entry list) \<times> world" where
  \<comment> \<open>\<^verbatim>\<open>for idx, row in enumerate(rows)\<close>, from index \<open>idx\<close> on\<close>
  "process_rows e idx [] acc w = (Inr acc, w)"
| "process_rows e idx (cells # rest) acc w =
     sbind (process_row e idx cells acc w) (\<lambda>acc w. process_rows e (idx + 1) rest acc w)"

definition process_new_rows :: "env \<Rightarrow> world \<Rightarrow> (error + push_summary) \<times> world" where
  "process_new_rows e w =
     sbind (read_rows e w) (\<lambda>rows w.
     sbind (process_rows e 0 rows [] w) (\<lambda>acc w.
       (Inr \<lparr>created = acc, checked_rows = length rows\<rparr>, w)))"

section \<open>Pull: CRM to sheet\<close>

fun status_entries :: "json list \<Rightarrow> (pykey \<rightharpoonup> json) \<Rightarrow> error + (pykey \<rightharpoonup> json)" where
  \<comment> \<open>the dictionary comprehension \<^verbatim>\<open>{it["id"]: it["name"] for it in items}\<close>\<close>
  "status_entries [] m = Inr m"
| "status_entries (it # rest) m =
     ebind (subscript it ''id'') (\<lambda>k.
     ebind (subscript it ''name'') (\<lambda>v.
     ebind (key_of k) (\<lambda>kk. status_entries rest (m(kk \<mapsto> v)))))"

definition get_status_map ::
  "env \<Rightarrow> int \<Rightarrow> world \<Rightarrow> (error + (pykey \<rightharpoonup> json)) \<times> world" where
  "get_status_map e pipeline_id w =
     (let url = AMO_BASE_URL e @ ''/api/v4/leads/pipelines/'' @ str_int pipeline_id @ ''/statuses''
      in sbind (amo_request e GET url [] None w) (\<lambda>r w.
           (ebind (raise_for_status r) (\<lambda>ok.
            ebind (response_json r) (\<lambda>j.
            ebind (dict_get j ''_embedded'' (JObj [])) (\<lambda>emb.
            ebind (dict_get emb ''statuses'' (JArr [])) (\<lambda>items.
            ebind (py_iter items) (\<lambda>its. status_entries its Map.empty))))), w)))"

definition leads_page :: "response \<Rightarrow> json list \<Rightarrow> error + (json list \<times> bool)" where
  \<comment> \<open>what one page adds to \<^verbatim>\<open>leads\<close>, and whether the loop goes on to the next page\<close>
  "leads_page r leads =
     ebind (raise_for_status r) (\<lambda>ok.
     ebind (response_json r) (\<lambda>data.
     ebind (dict_get data ''_embedded'' (JObj [])) (\<lambda>emb.
     ebind (dict_get emb ''leads'' (JArr [])) (\<lambda>batch.
       if \<not> truthy batch then Inr (leads, False)
       else
         ebind (py_iter batch) (\<lambda>items.
         ebind (dict_get data ''_links'' JNull) (\<lambda>links.
         ebind (dict_get (py_or links (JObj [])) ''next'' (JObj [])) (\<lambda>nxt.
         ebind (dict_get nxt ''href'' JNull) (\<lambda>next_link.
           Inr (leads @ items, truthy next_link)))))))))"

partial_function (option) fetch_leads_pages ::
  "env \<Rightarrow> int \<Rightarrow> int \<Rightarrow> json list \<Rightarrow> world \<Rightarrow> ((error + json list) \<times> world) option" where
  "fetch_leads_pages e pipeline_id page leads w =
     (case amo_request e GET (AMO_BASE_URL e @ ''/api/v4/leads'')
             [(''filter[pipeline_id]'', JNum pipeline_id), (''with'', JStr ''contacts''),
              (''page'', JNum page), (''limit'', JNum 50)] None w of
        (Inl err, w1) \<Rightarrow> Some (Inl err, w1)
      | (Inr r, w1) \<Rightarrow>
          (case leads_page r leads of
             Inl err \<Rightarrow> Some (Inl err, w1)
           | Inr (leads1, next_page) \<Rightarrow>
               if next_page then fetch_leads_pages e pipeline_id (page + 1) leads1 w1
               else Some (Inr leads1, w1)))"

declare fetch_leads_pages.simps [code]

definition fetch_leads_with_contacts ::
  "env \<Rightarrow> int \<Rightarrow> world \<Rightarrow> ((error + json list) \<times> world) option" where
  "fetch_leads_with_contacts e pipeline_id w = fetch_leads_pages e pipeline_id 1 [] w"

definition normalize_phone_value :: "json \<Rightarrow> error + string" where
  \<comment> \<open>\<^verbatim>\<open>normalize_phone\<close> on a CRM value: a falsy value gives the empty string before the
      regular expression runs, and the regular expression refuses what is not a string\<close>
  "normalize_phone_value v =
     (case v of JStr s \<Rightarrow> Inr (normalize_phone s)
      | _ \<Rightarrow> if truthy v then Inl TypeError else Inr [])"

definition first_value :: "json \<Rightarrow> error + json option" where
  \<comment> \<open>\<^verbatim>\<open>vals = cf.get("values") or []\<close> and, when it is not empty,
      \<^verbatim>\<open>vals[0].get("value") or ""\<close>\<close>
  "first_value cf =
     ebind (dict_get cf ''values'' JNull) (\<lambda>vs.
       let vals = py_or vs (JArr [])
       in if truthy vals
          then ebind (subscript0 vals) (\<lambda>v0.
               ebind (dict_get v0 ''value'' JNull) (\<lambda>v. Inr (Some (py_or v (JStr [])))))
          else Inr None)"

fun contact_fields :: "json list \<Rightarrow> string \<Rightarrow> json \<Rightarrow> error + (string \<times> json)" where
  \<comment> \<open>the loop over \<^verbatim>\<open>custom_fields_values\<close>, with the current \<^verbatim>\<open>phone\<close> and \<^verbatim>\<open>email\<close>\<close>
  "contact_fields [] ph em = Inr (ph, em)"
| "contact_fields (cf # rest) ph em =
     ebind (dict_get cf ''field_code'' JNull) (\<lambda>code.
     ebind (if code = JStr ''PHONE''
            then ebind (first_value cf) (\<lambda>v.
                   case v of None \<Rightarrow> Inr ph | Some x \<Rightarrow> normalize_phone_value x)
            else Inr ph) (\<lambda>ph1.
     ebind (dict_get cf ''field_code'' JNull) (\<lambda>code.
     ebind (if code = JStr ''EMAIL''
            then ebind (first_value cf) (\<lambda>v.
                   case v of None \<Rightarrow> Inr em | Some x \<Rightarrow> Inr x)
            else Inr em) (\<lambda>em1.
       contact_fields rest ph1 em1))))"

fun contact_entries :: "json list \<Rightarrow> (pykey \<rightharpoonup> json) \<Rightarrow> error + (pykey \<rightharpoonup> json)" where
  \<comment> \<open>the loop over the contacts of one response, filling \<^verbatim>\<open>out\<close>\<close>
  "contact_entries [] out = Inr out"
| "contact_entries (c # rest) out =
     ebind (dict_get c ''name'' JNull) (\<lambda>n.
     ebind (dict_get c ''custom_fields_values'' JNull) (\<lambda>cfs.
     ebind (py_iter (py_or cfs (JArr []))) (\<lambda>cfl.
     ebind (contact_fields cfl [] (JStr [])) (\<lambda>(ph, em).
     ebind (subscript c ''id'') (\<lambda>k.
     ebind (key_of k) (\<lambda>kk.
       contact_entries rest
         (out(kk \<mapsto> JObj [(''name'', py_or n (JStr [])), (''phone'', JStr ph), (''email'', em)]))))))))"

fun fetch_contact_chunks ::
  "env \<Rightarrow> json list \<Rightarrow> nat list \<Rightarrow> (pykey \<rightharpoonup> json) \<Rightarrow> world
     \<Rightarrow> (error + (pykey \<rightharpoonup> json)) \<times> world" where
  "fetch_contact_chunks e ids [] out w = (Inr out, w)"
| "fetch_contact_chunks e ids (i # rest) out w =
     (let chunk = take 50 (drop i ids);
          url = AMO_BASE_URL e @ ''/api/v4/contacts''
      in sbind (amo_request e GET url (map (\<lambda>cid. (''ids[]'', cid)) chunk) None w) (\<lambda>r w.
           case ebind (raise_for_status r) (\<lambda>ok.
                ebind (response_json r) (\<lambda>j.
                ebind (dict_get j ''_embedded'' (JObj [])) (\<lambda>emb.
                ebind (dict_get emb ''contacts'' (JArr [])) (\<lambda>cs.
                ebind (py_iter cs) (\<lambda>cl. contact_entries cl out))))) of
             Inl err \<Rightarrow> (Inl err, w)
           | Inr out1 \<Rightarrow> fetch_contact_chunks e ids rest out1 w))"

definition fetch_contacts_by_ids ::
  "env \<Rightarrow> json list \<Rightarrow> world \<Rightarrow> (error + (pykey \<rightharpoonup> json)) \<times> world" where
  "fetch_contacts_by_ids e ids w =
     (if ids = [] then (Inr Map.empty, w)
      else case py_range (length ids) 50 of
             Inl err \<Rightarrow> (Inl err, w)
           | Inr starts \<Rightarrow> fetch_contact_chunks e ids starts Map.empty w)"

fun index_rows :: "nat \<Rightarrow> string list list \<Rightarrow> (string \<rightharpoonup> nat) \<Rightarrow> (string \<rightharpoonup> nat)" where
  \<comment> \<open>the loop that fills \<^verbatim>\<open>lead_to_rowidx\<close>, from row index \<open>i\<close> on\<close>
  "index_rows i [] m = m"
| "index_rows i (cells # rest) m =
     index_rows (i + 1) rest
       (if length cells > 4 \<and> cells ! 4 \<noteq> [] then m(strip (cells ! 4) \<mapsto> i) else m)"

fun collect_contacts ::
  "json list \<Rightarrow> json list \<Rightarrow> (pykey \<rightharpoonup> json) \<Rightarrow> error + (json list \<times> (pykey \<rightharpoonup> json))" where
  \<comment> \<open>the first loop over the deals, with \<^verbatim>\<open>contact_ids\<close> and \<^verbatim>\<open>lead_contact\<close>\<close>
  "collect_contacts [] contact_ids lead_contact = Inr (contact_ids, lead_contact)"
| "collect_contacts (L # rest) contact_ids lead_contact =
     ebind (dict_get L ''_embedded'' JNull) (\<lambda>em0.
     ebind (dict_get (py_or em0 (JObj [])) ''contacts'' JNull) (\<lambda>cs0.
       let cs = py_or cs0 (JArr [])
       in ebind (if truthy cs
                 then ebind (subscript0 cs) (\<lambda>c0. dict_get c0 ''id'' JNull)
                 else Inr JNull) (\<lambda>cid.
          ebind (subscript L ''id'') (\<lambda>k.
          ebind (key_of k) (\<lambda>kk.
            collect_contacts rest
              (if truthy cid then contact_ids @ [cid] else contact_ids)
              (lead_contact(kk \<mapsto> cid)))))))"

definition row_values ::
  "env \<Rightarrow> (pykey \<rightharpoonup> json) \<Rightarrow> (pykey \<rightharpoonup> json) \<Rightarrow> (pykey \<rightharpoonup> json) \<Rightarrow> json
     \<Rightarrow> error + (string \<times> json list)" where
  \<comment> \<open>the deal's \<^verbatim>\<open>lead_id\<close> and its \<^verbatim>\<open>row_values\<close>, as the second loop computes them\<close>
  "row_values e status_map lead_contact contacts_map L =
     ebind (subscript L ''id'') (\<lambda>i.
       let lead = py_str e i
       in ebind (dict_get L ''status_id'' JNull) (\<lambda>status_id.
          ebind (key_of status_id) (\<lambda>sk.
            let status_name = (case status_map sk of Some label \<Rightarrow> label
                               | None \<Rightarrow> JStr (py_str e status_id))
            in ebind (dict_get L ''price'' JNull) (\<lambda>p.
                 let price = py_or p (JNum 0)
                 in ebind (subscript L ''id'') (\<lambda>i2.
                    ebind (key_of i2) (\<lambda>lk.
                    ebind (case lead_contact lk of None \<Rightarrow> Inl KeyError | Some cid \<Rightarrow> Inr cid) (\<lambda>cid.
                    ebind (key_of cid) (\<lambda>ck.
                      let c = (case contacts_map ck of Some c \<Rightarrow> c | None \<Rightarrow> JObj [])
                      in ebind (dict_get c ''name'' (JStr [])) (\<lambda>nm.
                         ebind (dict_get c ''phone'' (JStr [])) (\<lambda>ph.
                         ebind (dict_get c ''email'' (JStr [])) (\<lambda>em.
                           Inr (lead, [nm, ph, em, price, JStr lead, status_name]))))))))))))"

record queued =
  updates :: "(nat \<times> json list) list"
  appends :: "json list list"
  updated_count :: nat
  inserted_count :: nat

fun queue_leads ::
  "env \<Rightarrow> (string \<rightharpoonup> nat) \<Rightarrow> (pykey \<rightharpoonup> json) \<Rightarrow> (pykey \<rightharpoonup> json) \<Rightarrow> (pykey \<rightharpoonup> json)
     \<Rightarrow> json list \<Rightarrow> queued \<Rightarrow> error + queued" where
  \<comment> \<open>the second loop over the deals\<close>
  "queue_leads e lead_to_rowidx status_map lead_contact contacts_map [] q = Inr q"
| "queue_leads e lead_to_rowidx status_map lead_contact contacts_map (L # rest) q =
     ebind (row_values e status_map lead_contact contacts_map L) (\<lambda>(lead, vals).
       queue_leads e lead_to_rowidx status_map lead_contact contacts_map rest
         (case lead_to_rowidx lead of
            Some i \<Rightarrow> q\<lparr>updates := updates q @ [(i, vals)], updated_count := updated_count q + 1\<rparr>
          | None \<Rightarrow> q\<lparr>appends := appends q @ [vals], inserted_count := inserted_count q + 1\<rparr>))"

record pull_summary =
  updated :: nat
  inserted :: nat
  fetched :: nat

definition sync_from_amocrm :: "env \<Rightarrow> world \<Rightarrow> ((error + pull_summary) \<times> world) option" where
  "sync_from_amocrm e w =
     (case read_sheet_all e w of
        (Inl err, w) \<Rightarrow> Some (Inl err, w)
      | (Inr rows, w) \<Rightarrow>
          let lead_to_rowidx = index_rows 0 rows Map.empty
          in case get_status_map e (AMO_PIPELINE_ID e) w of
               (Inl err, w) \<Rightarrow> Some (Inl err, w)
             | (Inr status_map, w) \<Rightarrow>
                 (case fetch_leads_with_contacts e (AMO_PIPELINE_ID e) w of
                    None \<Rightarrow> None
                  | Some (Inl err, w) \<Rightarrow> Some (Inl err, w)
                  | Some (Inr leads, w) \<Rightarrow>
                      (case collect_contacts leads [] Map.empty of
                         Inl err \<Rightarrow> Some (Inl err, w)
                       | Inr (contact_ids, lead_contact) \<Rightarrow>
                           (case fetch_contacts_by_ids e contact_ids w of
                              (Inl err, w) \<Rightarrow> Some (Inl err, w)
                            | (Inr contacts_map, w) \<Rightarrow>
                                (case queue_leads e lead_to_rowidx status_map lead_contact
                                        contacts_map leads
                                        \<lparr>updates = [], appends = [], updated_count = 0, inserted_count = 0\<rparr> of
                                   Inl err \<Rightarrow> Some (Inl err, w)
                                 | Inr q \<Rightarrow>
                                     (case commit_sheet_changes e (updates q) (appends q) 100 w of
                                        (Inl err, w) \<Rightarrow> Some (Inl err, w)
                                      | (Inr ok, w) \<Rightarrow>
                                          Some (Inr \<lparr>updated = updated_count q, inserted = inserted_count q,
                                                     fetched = length leads\<rparr>, w)))))))"

section \<open>Observations on traces\<close>

text \<open>
  The functions of this section are not part of the program. They read a trace, or
  describe the trace a retry loop leaves behind, so that the theorems can speak about
  attempts, delays and the order of calls.
\<close>

definition needs_retry :: "http_outcome \<Rightarrow> bool" where
  "needs_retry out =
     (case out of
        TransportFails \<Rightarrow> True
      | Responds r \<Rightarrow> status_code r = 429 \<or> (500 \<le> status_code r \<and> status_code r < 600))"

fun crm_attempts :: "env \<Rightarrow> http_request \<Rightarrow> nat \<Rightarrow> world \<Rightarrow> nat \<Rightarrow> world" where
  "crm_attempts e req a w 0 = w"
| "crm_attempts e req a w (Suc n) =
     crm_attempts e req (a + 1) (sleep (2 ^ a / 2) (snd (httpx_request e req w))) n"

definition rate_limited :: "sheets_outcome \<Rightarrow> bool" where
  "rate_limited out =
     (case out of
        Executes res \<Rightarrow> False
      | SheetsFails msg \<Rightarrow> str_contains ''RATE_LIMIT_EXCEEDED'' msg)"

fun sheet_attempts :: "env \<Rightarrow> sheets_call \<Rightarrow> nat \<Rightarrow> world \<Rightarrow> nat \<Rightarrow> world" where
  "sheet_attempts e call a w 0 = w"
| "sheet_attempts e call a w (Suc n) =
     sheet_attempts e call (a + 1) (sleep (2 ^ a) (snd (sheets_execute e call w))) n"

fun slept :: "world \<Rightarrow> rat list" where
  "slept [] = []"
| "slept (Sleep d # w) = d # slept w"
| "slept (ev # w) = slept w"

fun http_calls :: "world \<Rightarrow> (http_request \<times> http_outcome) list" where
  "http_calls [] = []"
| "http_calls (Http req out # w) = (req, out) # http_calls w"
| "http_calls (ev # w) = http_calls w"

fun sheets_calls :: "world \<Rightarrow> (sheets_call \<times> sheets_outcome) list" where
  "sheets_calls [] = []"
| "sheets_calls (Sheets call out # w) = (call, out) # sheets_calls w"
| "sheets_calls (ev # w) = sheets_calls w"

definition always_rate_limited :: env where
  "always_rate_limited =
     \<lparr>AMO_BASE_URL = ''https://crm'', AMO_PIPELINE_ID = 8237934, AMO_STATUS_ID = 67260282,
      SHEET_RANGE = ''Sheet1!A2:F'', sheet_credentials = True, repr = (\<lambda>j. []),
      crm_backend = (\<lambda>w req. TransportFails),
      sheets_backend = (\<lambda>w call. SheetsFails ''RATE_LIMIT_EXCEEDED'')\<rparr>"

definition flaky_env :: env where
  "flaky_env =
     \<lparr>AMO_BASE_URL = ''https://crm'', AMO_PIPELINE_ID = 8237934, AMO_STATUS_ID = 67260282,
      SHEET_RANGE = ''Sheet1!A2:F'', sheet_credentials = True, repr = (\<lambda>j. []),
      crm_backend = (\<lambda>w req.
         if length (http_calls w) < 2 then Responds \<lparr>status_code = 503, content = None\<rparr>
         else Responds \<lparr>status_code = 404, content = None\<rparr>),
      sheets_backend = (\<lambda>w call.
         if length (sheets_calls w) < 5 then SheetsFails ''429 RATE_LIMIT_EXCEEDED''
         else Executes None)\<rparr>"

definition contact_query :: "env \<Rightarrow> string \<Rightarrow> http_request" where
  \<comment> \<open>the contact search for the text \<open>q\<close> of a cell: the text itself when it holds an \<open>@\<close>,
      its normalised digits otherwise\<close>
  "contact_query e q =
     \<lparr>verb = GET, url = AMO_BASE_URL e @ ''/api/v4/contacts'',
      params = [(''query'', JStr (if CHR ''@'' \<in> set q then q else normalize_phone q))],
      body = None\<rparr>"

definition requests_to :: "string \<Rightarrow> world \<Rightarrow> nat" where
  \<comment> \<open>how many requests the trace holds for the address \<open>u\<close>\<close>
  "requests_to u w = length (filter (\<lambda>c. url (fst c) = u) (http_calls w))"

definition search_queries :: "world \<Rightarrow> json list" where
  \<comment> \<open>the \<^verbatim>\<open>query\<close> parameter of every GET request of the trace, in order\<close>
  "search_queries w =
     concat (map (\<lambda>c. map snd (filter (\<lambda>p. fst p = ''query'') (params (fst c))))
               (filter (\<lambda>c. verb (fst c) = GET) (http_calls w)))"



definition queued_updates :: "(string \<rightharpoonup> nat) \<Rightarrow> (string \<times> json list) list \<Rightarrow> (nat \<times> json list) list" where
  \<comment> \<open>of the deals' rows, in order, those whose deal id the index knows, each with its row index\<close>
  "queued_updates idx rs =
     concat (map (\<lambda>r. case idx (fst r) of Some i \<Rightarrow> [(i, snd r)] | None \<Rightarrow> []) rs)"

definition queued_appends :: "(string \<rightharpoonup> nat) \<Rightarrow> (string \<times> json list) list \<Rightarrow> json list list" where
  \<comment> \<open>of the deals' rows, in order, those whose deal id the index does not know\<close>
  "queued_appends idx rs =
     concat (map (\<lambda>r. case idx (fst r) of Some i \<Rightarrow> [] | None \<Rightarrow> [snd r]) rs)"

function chunks :: "nat \<Rightarrow> 'a list \<Rightarrow> 'a list list" where
  \<comment> \<open>a list cut into consecutive pieces of \<open>n\<close> elements, the last one possibly shorter\<close>
  "chunks n xs = (if n = 0 \<or> xs = [] then [] else take n xs # chunks n (drop n xs))"
  by pat_completeness auto
termination
  by (relation "measure (\<lambda>(n, xs). length xs)") auto

definition commit_plan ::
  "env \<Rightarrow> nat \<Rightarrow> (nat \<times> json list) list \<Rightarrow> json list list \<Rightarrow> sheets_call list" where
  \<comment> \<open>the batches the specification asks for: the update chunks, then the append chunks\<close>
  "commit_plan e n ups apps =
     map (\<lambda>c. ValuesBatchUpdate (update_data e c)) (chunks n ups) @
     map (\<lambda>c. ValuesAppend (sheet_name e @ ''!A:F'') c) (chunks 500 apps)"

definition dispatched :: "world \<Rightarrow> sheets_call list" where
  \<comment> \<open>every spreadsheet call that was sent, in order\<close>
  "dispatched w = map fst (sheets_calls w)"

definition executed :: "world \<Rightarrow> sheets_call list" where
  \<comment> \<open>the spreadsheet calls that the backend carried out\<close>
  "executed w =
     map fst (filter (\<lambda>c. case snd c of Executes res \<Rightarrow> True | SheetsFails msg \<Rightarrow> False)
                (sheets_calls w))"

definition numbered_updates :: "nat \<Rightarrow> (nat \<times> json list) list" where
  \<comment> \<open>\<open>n\<close> updates, for rows 0 to \<open>n - 1\<close>\<close>
  "numbered_updates n = map (\<lambda>i. (i, [JNum (int i)])) [0 ..< n]"

definition steady_env :: env where
  \<comment> \<open>both backends answer every call; the sheet is empty\<close>
  "steady_env =
     \<lparr>AMO_BASE_URL = ''https://crm'', AMO_PIPELINE_ID = 8237934, AMO_STATUS_ID = 67260282,
      SHEET_RANGE = ''Sheet1!A2:F'', sheet_credentials = True, repr = (\<lambda>j. []),
      crm_backend = (\<lambda>w req. Responds \<lparr>status_code = 200, content = Some (JObj [])\<rparr>),
      sheets_backend = (\<lambda>w call. Executes None)\<rparr>"

fun run_calls :: "env \<Rightarrow> sheets_call list \<Rightarrow> world \<Rightarrow> (error + unit) \<times> world" where
  \<comment> \<open>the calls of a list sent one after the other, each under the retry loop, up to the
      first one that raises\<close>
  "run_calls e [] w = (Inr (), w)"
| "run_calls e (call # calls) w =
     sbind (execute_retrying e call 0 w) (\<lambda>ok w. run_calls e calls w)"

fun batch_size :: "sheets_call \<Rightarrow> nat" where
  \<comment> \<open>the number of rows a call carries\<close>
  "batch_size (ValuesBatchUpdate entries) = length entries"
| "batch_size (ValuesAppend rng vs) = length vs"
| "batch_size (ValuesUpdate rng vs) = length vs"
| "batch_size (ValuesGet rng) = 0"

section \<open>Example environments\<close>

text \<open>
  Concrete backends, on which the theorems below are run. \<open>crm_creating\<close> is a CRM that
  knows no contact, creates contact 11 and creates deal 555.
\<close>

definition contacts_body :: "json list \<Rightarrow> json" where
  "contacts_body cs = JObj [(''_embedded'', JObj [(''contacts'', JArr cs)])]"

definition leads_body :: "json list \<Rightarrow> json" where
  "leads_body ls = JObj [(''_embedded'', JObj [(''leads'', JArr ls)])]"

definition crm_creating :: "world \<Rightarrow> http_request \<Rightarrow> http_outcome" where
  "crm_creating w req =
     (if verb req = GET then Responds \<lparr>status_code = 200, content = Some (JObj [])\<rparr>
      else if url req = ''https://crm/api/v4/contacts''
      then Responds \<lparr>status_code = 200, content = Some (contacts_body [JObj [(''id'', JNum 11)]])\<rparr>
      else Responds \<lparr>status_code = 200, content = Some (leads_body [JObj [(''id'', JNum 555)]])\<rparr>)"

definition sheet_env :: "string list list \<Rightarrow> (world \<Rightarrow> http_request \<Rightarrow> http_outcome) \<Rightarrow> env" where
  \<comment> \<open>a sheet that holds \<open>rows\<close> and accepts every write, in front of the CRM \<open>crm\<close>\<close>
  "sheet_env rows crm =
     \<lparr>AMO_BASE_URL = ''https://crm'', AMO_PIPELINE_ID = 8237934, AMO_STATUS_ID = 67260282,
      SHEET_RANGE = ''Sheet1!A2:F'', sheet_credentials = True, repr = (\<lambda>j. []),
      crm_backend = crm,
      sheets_backend = (\<lambda>w call. Executes (Some rows))\<rparr>"

definition row_ann :: "string list" where
  "row_ann = [''Ann'', ''+7 999 000 00 00'', ''ann@mail.org'', ''10'', ''555'']"

definition row_jane :: "string list" where
  "row_jane = [''Jane Doe'', ''89991234567'', '''', '''']"

definition crm_busy_once :: "string \<Rightarrow> world \<Rightarrow> http_request \<Rightarrow> http_outcome" where
  \<comment> \<open>like \<open>crm_creating\<close>, but the first POST to the address \<open>u\<close> is answered 429\<close>
  "crm_busy_once u w req =
     (if verb req = POST \<and> url req = u \<and>
         list_all (\<lambda>c. \<not> (verb (fst c) = POST \<and> url (fst c) = u)) (http_calls w)
      then Responds \<lparr>status_code = 429, content = None\<rparr>
      else crm_creating w req)"

definition crm_refusing_search :: "world \<Rightarrow> http_request \<Rightarrow> http_outcome" where
  \<comment> \<open>like \<open>crm_creating\<close>, but every GET is answered 401\<close>
  "crm_refusing_search w req =
     (if verb req = GET then Responds \<lparr>status_code = 401, content = None\<rparr>
      else crm_creating w req)"

definition crm_knowing :: "world \<Rightarrow> http_request \<Rightarrow> http_outcome" where
  \<comment> \<open>like \<open>crm_creating\<close>, but a search for \<open>bob@mail.org\<close> finds contact 21 and a search for
      \<open>79991234567\<close> finds contact 22\<close>
  "crm_knowing w req =
     (if verb req = GET \<and> params req = [(''query'', JStr ''bob@mail.org'')]
      then Responds \<lparr>status_code = 200, content = Some (contacts_body [JObj [(''id'', JNum 21)]])\<rparr>
      else if verb req = GET \<and> params req = [(''query'', JStr ''79991234567'')]
      then Responds \<lparr>status_code = 200, content = Some (contacts_body [JObj [(''id'', JNum 22)]])\<rparr>
      else crm_creating w req)"

definition row_bob :: "string list" where
  "row_bob = [''Bob'', ''8 (999) 123-45-67'', ''bob@mail.org'', ''12'']"

definition row_no_at :: "string list" where
  \<comment> \<open>a row whose e-mail cell holds no \<open>@\<close>\<close>
  "row_no_at = [''Bob'', ''8 (999) 123-45-67'', ''bob.mail.org'', ''12'']"

definition deal_json :: "int \<Rightarrow> int \<Rightarrow> json \<Rightarrow> json" where
  \<comment> \<open>a deal of the pipeline, linked to contact 11\<close>
  "deal_json i st p =
     JObj [(''id'', JNum i), (''status_id'', JNum st), (''price'', p),
           (''_embedded'', JObj [(''contacts'', JArr [JObj [(''id'', JNum 11)]])])]"

definition crm_pipeline :: "world \<Rightarrow> http_request \<Rightarrow> http_outcome" where
  \<comment> \<open>a CRM whose pipeline holds deal 555, in a status that has a label and with no price,
      and deal 77, in a status without label and with price 1500\<close>
  "crm_pipeline w req =
     (if url req = ''https://crm/api/v4/leads/pipelines/7/statuses''
      then Responds \<lparr>status_code = 200, content = Some (JObj [(''_embedded'', JObj [(''statuses'',
             JArr [JObj [(''id'', JNum 67260282), (''name'', JStr ''In progress'')]])])])\<rparr>
      else if url req = ''https://crm/api/v4/leads''
      then Responds \<lparr>status_code = 200, content = Some (leads_body
             [deal_json 555 67260282 JNull, deal_json 77 5 (JNum 1500)])\<rparr>
      else Responds \<lparr>status_code = 200, content = Some (contacts_body
             [JObj [(''id'', JNum 11), (''name'', JStr ''Jane''),
                    (''custom_fields_values'',
                     JArr [JObj [(''field_code'', JStr ''PHONE''),
                                 (''values'', JArr [JObj [(''value'', JStr ''8 999 123 45 67'')]])]])]])\<rparr>)"

definition row_linked_77 :: "string list" where
  \<comment> \<open>a row whose deal-reference cell holds 77 between blanks\<close>
  "row_linked_77 = [''Bob'', '''', ''bob@mail.org'', ''12'', '' 77 '']"

definition row_padded_budget :: "string list" where
  \<comment> \<open>a linked row whose budget cell is the unit separator (code point 31) and then 10\<close>
  "row_padded_budget = [''Ann'', ''+7 999 000 00 00'', ''ann@mail.org'', [char_of (31 :: nat), CHR ''1'', CHR ''0''], ''555'']"

definition pull_env :: env where
  \<comment> \<open>pipeline 7 of \<open>crm_pipeline\<close>, in front of a sheet whose second row refers to deal 77\<close>
  "pull_env = (sheet_env [row_jane, row_linked_77] crm_pipeline)\<lparr>AMO_PIPELINE_ID := 7\<rparr>"

section \<open>Sequencing\<close>

lemma sbind_simps [simp]:
  "sbind (Inl err, w) f = (Inl err, w)"
  "sbind (Inr x, w) f = f x w"
  by (simp_all add: sbind_def)

lemma ebind_simps [simp]:
  "ebind (Inl err) f = Inl err"
  "ebind (Inr x) f = f x"
  by (simp_all add: ebind_def)

declare amo_request_loop.simps [simp del]
declare execute_retrying.simps [simp del]

lemma slept_append [simp]: "slept (w @ v) = slept w @ slept v"
  by (induction w rule: slept.induct) auto

lemma http_calls_append [simp]: "http_calls (w @ v) = http_calls w @ http_calls v"
  by (induction w rule: http_calls.induct) auto

lemma sheets_calls_append [simp]: "sheets_calls (w @ v) = sheets_calls w @ sheets_calls v"
  by (induction w rule: sheets_calls.induct) auto

lemma sbind_eq_Inr:
  "sbind m f = (Inr x, w') \<longleftrightarrow> (\<exists>y w1. m = (Inr y, w1) \<and> f y w1 = (Inr x, w'))"
  by (cases m; cases "fst m") (auto simp: sbind_def)

lemma ebind_eq_Inr: "ebind m f = Inr x \<longleftrightarrow> (\<exists>y. m = Inr y \<and> f y = Inr x)"
  by (cases m) auto

section \<open>Properties of the contact normaliser\<close>

lemma startswith_single: "startswith d [c] \<longleftrightarrow> d \<noteq> [] \<and> hd d = c"
  by (cases d) (auto simp: startswith_def)

lemma normalize_phone_digits_form:
  "normalize_phone raw =
     (let d = filter is_decimal raw
      in if d \<noteq> [] \<and> hd d = CHR ''8'' \<and> length d = 11 then CHR ''7'' # tl d
         else if length d = 10 then CHR ''7'' # d
         else d)"
  by (cases raw) (auto simp: normalize_phone_def Let_def startswith_single drop_Suc)

lemma is_decimal_7: "is_decimal (CHR ''7'')"
  by (simp add: is_decimal_def)

lemma filter_id_decimal: "list_all is_decimal d \<Longrightarrow> filter is_decimal d = d"
  by (induction d) auto

lemma normalize_phone_all_decimal: "list_all is_decimal (normalize_phone raw)"
proof -
  define d where "d = filter is_decimal raw"
  have dd: "list_all is_decimal d" by (simp add: d_def list_all_iff)
  then have "list_all is_decimal (tl d)" by (cases d) auto
  with dd show ?thesis
    unfolding normalize_phone_digits_form d_def [symmetric]
    by (simp add: Let_def is_decimal_7)
qed

lemma normalize_phone_fixed:
  assumes "list_all is_decimal d"
    and "\<not> (d \<noteq> [] \<and> hd d = CHR ''8'' \<and> length d = 11)"
    and "length d \<noteq> 10"
  shows "normalize_phone d = d"
  using assms unfolding normalize_phone_digits_form
  by (auto simp: filter_id_decimal Let_def)

lemma normalize_phone_idem: "normalize_phone (normalize_phone raw) = normalize_phone raw"
proof -
  define d where "d = filter is_decimal raw"
  have dd: "list_all is_decimal d" by (simp add: d_def list_all_iff)
  consider (trunk) "d \<noteq> [] \<and> hd d = CHR ''8'' \<and> length d = 11"
    | (local) "\<not> (d \<noteq> [] \<and> hd d = CHR ''8'' \<and> length d = 11)" "length d = 10"
    | (other) "\<not> (d \<noteq> [] \<and> hd d = CHR ''8'' \<and> length d = 11)" "length d \<noteq> 10"
    by blast
  then show ?thesis
  proof cases
    case trunk
    then have r: "normalize_phone raw = CHR ''7'' # tl d"
      unfolding normalize_phone_digits_form d_def by (auto simp: Let_def)
    have "list_all is_decimal (CHR ''7'' # tl d)"
      using dd trunk by (cases d) (auto simp: is_decimal_7)
    then have "normalize_phone (CHR ''7'' # tl d) = CHR ''7'' # tl d"
      using trunk by (intro normalize_phone_fixed) auto
    with r show ?thesis by simp
  next
    case local
    then have r: "normalize_phone raw = CHR ''7'' # d"
      unfolding normalize_phone_digits_form d_def by (auto simp: Let_def)
    have "normalize_phone (CHR ''7'' # d) = CHR ''7'' # d"
      using dd local by (intro normalize_phone_fixed) (auto simp: is_decimal_7)
    with r show ?thesis by simp
  next
    case other
    then have r: "normalize_phone raw = d"
      unfolding normalize_phone_digits_form d_def by (auto simp: Let_def)
    have "normalize_phone d = d"
      using dd other by (intro normalize_phone_fixed) auto
    with r show ?thesis by simp
  qed
qed

text \<open>
  Claim C5. \<^verbatim>\<open>normalize_phone\<close> computes what the specification says: it keeps the
  digits of its input; eleven digits that start with 8 get a 7 in place of the 8; ten
  digits get a 7 in front; any other digit string, the empty one included, is returned
  as it is. The function is total: on a string no step of it can raise.
\<close>

theorem normalize_phone_refines_spec:
  "normalize_phone raw = normalize_phone_spec raw \<and> normalize_phone [] = []"
  unfolding normalize_phone_digits_form normalize_phone_spec_def
  by (auto simp: Let_def)

theorem normalize_phone_refines_spec_witness:
  "normalize_phone ''8 (999) 123-45-67'' = normalize_phone_spec ''8 (999) 123-45-67'' \<and>
   normalize_phone_spec ''8 (999) 123-45-67'' = ''79991234567'' \<and>
   normalize_phone_spec ''999 123 45 67'' = ''79991234567'' \<and>
   normalize_phone_spec ''+1 (20) 55'' = ''12055''"
  using normalize_phone_refines_spec [of "''8 (999) 123-45-67''"]
  by (simp add: normalize_phone_spec_def is_decimal_def)

text \<open>
  Claim C6. The result of \<^verbatim>\<open>normalize_phone\<close> holds digits only, and normalising a
  second time changes nothing.
\<close>

theorem normalize_phone_digits_idempotent:
  "list_all is_decimal (normalize_phone raw) \<and>
   normalize_phone (normalize_phone raw) = normalize_phone raw"
  by (simp add: normalize_phone_all_decimal normalize_phone_idem)

theorem normalize_phone_digits_idempotent_witness:
  "list_all is_decimal (normalize_phone ''tel: 999 123-45-67'') \<and>
   normalize_phone (normalize_phone ''tel: 999 123-45-67'') = ''79991234567''"
  using normalize_phone_digits_idempotent [of "''tel: 999 123-45-67''"]
  by (simp add: normalize_phone_def startswith_def is_decimal_def)

section \<open>Retry bounds\<close>

lemma amo_request_loop_from:
  "a \<le> 4 \<Longrightarrow>
   \<exists>n. a + n < 5 \<and>
     (\<forall>k<n. needs_retry (crm_backend e (crm_attempts e req a w k) req)) \<and>
     snd (amo_request_loop e req a prev w) = snd (httpx_request e req (crm_attempts e req a w n)) \<and>
     (case crm_backend e (crm_attempts e req a w n) req of
        Responds r \<Rightarrow>
          if status_code r = 429 \<or> (500 \<le> status_code r \<and> status_code r < 600)
          then a + n = 4 \<and> fst (amo_request_loop e req a prev w) = Inl (HTTPStatusError (status_code r))
          else fst (amo_request_loop e req a prev w) = Inr r
      | TransportFails \<Rightarrow>
          a + n = 4 \<and> fst (amo_request_loop e req a prev w) = Inl TransportError)"
proof (induction "4 - a" arbitrary: a w prev)
  case 0
  then have a: "a = 4" by simp
  show ?case
    apply (rule exI [of _ 0])
    apply (simp add: a amo_request_loop.simps [of e req 4] httpx_request_def Let_def raise_for_status_def
            split: http_outcome.splits)
    done
next
  case (Suc m)
  then have a: "a < 4" by simp
  show ?case
  proof (cases "needs_retry (crm_backend e w req)")
    case False
    show ?thesis
      apply (rule exI [of _ 0])
      using False a
      apply (auto simp: amo_request_loop.simps [of e req a] httpx_request_def Let_def needs_retry_def
              split: http_outcome.splits)
      done
  next
    case True
    define w1 where "w1 = sleep (2 ^ a / 2) (snd (httpx_request e req w))"
    obtain prev1 where step: "amo_request_loop e req a prev w = amo_request_loop e req (a + 1) prev1 w1"
      using True a
      by (auto simp: amo_request_loop.simps [of e req a] httpx_request_def Let_def needs_retry_def w1_def
            split: http_outcome.splits)
    have "m = 4 - (a + 1)" "a + 1 \<le> 4" using Suc.hyps a by simp_all
    from Suc.hyps(1) [OF this, of w1 prev1]
    obtain n where n: "a + 1 + n < 5"
      "\<forall>k<n. needs_retry (crm_backend e (crm_attempts e req (a + 1) w1 k) req)"
      "snd (amo_request_loop e req (a + 1) prev1 w1) = snd (httpx_request e req (crm_attempts e req (a + 1) w1 n))"
      "(case crm_backend e (crm_attempts e req (a + 1) w1 n) req of
        Responds r \<Rightarrow>
          if status_code r = 429 \<or> (500 \<le> status_code r \<and> status_code r < 600)
          then a + 1 + n = 4 \<and> fst (amo_request_loop e req (a + 1) prev1 w1) = Inl (HTTPStatusError (status_code r))
          else fst (amo_request_loop e req (a + 1) prev1 w1) = Inr r
      | TransportFails \<Rightarrow>
          a + 1 + n = 4 \<and> fst (amo_request_loop e req (a + 1) prev1 w1) = Inl TransportError)"
      by blast
    have all: "\<forall>k<Suc n. needs_retry (crm_backend e (crm_attempts e req a w k) req)"
    proof (intro allI impI)
      fix k assume "k < Suc n"
      then show "needs_retry (crm_backend e (crm_attempts e req a w k) req)"
        using True n(2) by (cases k) (auto simp: w1_def)
    qed
    show ?thesis
      apply (rule exI [of _ "Suc n"])
      using n(1,3,4) all
      apply (auto simp: step w1_def [symmetric] split: http_outcome.splits if_splits)
      done
  qed
qed


lemma execute_retrying_from:
  "a \<le> 5 \<Longrightarrow>
   \<exists>n. a + n \<le> 5 \<and>
     (\<forall>k<n. rate_limited (sheets_backend e (sheet_attempts e call a w k) call)) \<and>
     snd (execute_retrying e call a w) = snd (sheets_execute e call (sheet_attempts e call a w n)) \<and>
     (case sheets_backend e (sheet_attempts e call a w n) call of
        Executes res \<Rightarrow> fst (execute_retrying e call a w) = Inr ()
      | SheetsFails msg \<Rightarrow>
          fst (execute_retrying e call a w) = Inl (HttpError msg) \<and>
          (str_contains ''RATE_LIMIT_EXCEEDED'' msg \<longrightarrow> a + n = 5))"
proof (induction "5 - a" arbitrary: a w)
  case 0
  then have a: "a = 5" by simp
  show ?case
    apply (rule exI [of _ 0])
    apply (simp add: a execute_retrying.simps [of e call 5] sheets_execute_def Let_def
            split: sheets_outcome.splits)
    done
next
  case (Suc m)
  then have a: "a < 5" by simp
  show ?case
  proof (cases "rate_limited (sheets_backend e w call)")
    case False
    show ?thesis
      apply (rule exI [of _ 0])
      using False a
      apply (auto simp: execute_retrying.simps [of e call a] sheets_execute_def Let_def rate_limited_def
              split: sheets_outcome.splits)
      done
  next
    case True
    define w1 where "w1 = sleep (2 ^ a) (snd (sheets_execute e call w))"
    have step: "execute_retrying e call a w = execute_retrying e call (a + 1) w1"
      using True a
      by (auto simp: execute_retrying.simps [of e call a] sheets_execute_def Let_def rate_limited_def w1_def
            split: sheets_outcome.splits)
    have "m = 5 - (a + 1)" "a + 1 \<le> 5" using Suc.hyps a by simp_all
    from Suc.hyps(1) [OF this, of w1]
    obtain n where n: "a + 1 + n \<le> 5"
      "\<forall>k<n. rate_limited (sheets_backend e (sheet_attempts e call (a + 1) w1 k) call)"
      "snd (execute_retrying e call (a + 1) w1) = snd (sheets_execute e call (sheet_attempts e call (a + 1) w1 n))"
      "(case sheets_backend e (sheet_attempts e call (a + 1) w1 n) call of
        Executes res \<Rightarrow> fst (execute_retrying e call (a + 1) w1) = Inr ()
      | SheetsFails msg \<Rightarrow>
          fst (execute_retrying e call (a + 1) w1) = Inl (HttpError msg) \<and>
          (str_contains ''RATE_LIMIT_EXCEEDED'' msg \<longrightarrow> a + 1 + n = 5))"
      by blast
    have all: "\<forall>k<Suc n. rate_limited (sheets_backend e (sheet_attempts e call a w k) call)"
    proof (intro allI impI)
      fix k assume "k < Suc n"
      then show "rate_limited (sheets_backend e (sheet_attempts e call a w k) call)"
        using True n(2) by (cases k) (auto simp: w1_def)
    qed
    show ?thesis
      apply (rule exI [of _ "Suc n"])
      using n(1,3,4) all
      apply (auto simp: step w1_def [symmetric] split: sheets_outcome.splits if_splits)
      done
  qed
qed

lemma crm_attempts_slept:
  "slept (crm_attempts e req a w n) = slept w @ map (\<lambda>k. 2 ^ k / 2) [a ..< a + n]"
  by (induction n arbitrary: a w) (auto simp: sleep_def httpx_request_def Let_def upt_rec)

lemma crm_attempts_calls:
  "map fst (http_calls (crm_attempts e req a w n)) = map fst (http_calls w) @ replicate n req"
  by (induction n arbitrary: a w)
     (auto simp: sleep_def httpx_request_def Let_def replicate_append_same)

lemma sheet_attempts_slept:
  "slept (sheet_attempts e call a w n) = slept w @ map (\<lambda>k. 2 ^ k) [a ..< a + n]"
  by (induction n arbitrary: a w) (auto simp: sleep_def sheets_execute_def Let_def upt_rec)

lemma sheet_attempts_calls:
  "map fst (sheets_calls (sheet_attempts e call a w n)) = map fst (sheets_calls w) @ replicate n call"
  by (induction n arbitrary: a w)
     (auto simp: sleep_def sheets_execute_def Let_def replicate_append_same)


text \<open>
  Claim C3, as stated, gives the spreadsheet write path the executor's bound of five
  attempts. The loop in \<^verbatim>\<open>commit_sheet_changes\<close> retries while \<^verbatim>\<open>attempt < 5\<close> and
  counts the retries, not the attempts: against a backend that always reports the rate
  limit it sends the same batch six times before it raises, and a batch that is refused
  five times is written by the sixth attempt.
\<close>

theorem sheet_write_sixth_attempt:
  "length (sheets_calls (snd (commit_sheet_changes always_rate_limited [(0, [JStr ''a''])] [] 100 []))) = 6 \<and>
   \<not> length (sheets_calls (snd (commit_sheet_changes always_rate_limited [(0, [JStr ''a''])] [] 100 []))) \<le> 5 \<and>
   fst (commit_sheet_changes flaky_env [(0, [JStr ''a''])] [] 100 []) = Inr () \<and>
   length (sheets_calls (snd (commit_sheet_changes flaky_env [(0, [JStr ''a''])] [] 100 []))) = 6"
  by code_simp

text \<open>
  Claim C3, amended. The CRM executor makes at most five attempts: while the outcome of
  attempt \<open>k\<close> (counted from 0) is a transport failure, a 429 or a 5xx and \<open>k < 4\<close>, it
  sleeps \<open>2 ^ k / 2\<close> seconds and tries again; any other response is returned at once; a
  failure of the fifth attempt is raised. The spreadsheet write loop makes at most six
  attempts: while the error of attempt \<open>k\<close> names the rate limit and \<open>k < 5\<close>, it sleeps
  \<open>2 ^ k\<close> seconds and tries again; any other error, and the error of the sixth attempt,
  is raised.
\<close>

theorem retry_bounds:
  "(\<exists>n<5.
      (\<forall>k<n. needs_retry (crm_backend e (crm_attempts e req 0 w k) req)) \<and>
      snd (amo_request e (verb req) (url req) (params req) (body req) w) =
        snd (httpx_request e req (crm_attempts e req 0 w n)) \<and>
      slept (crm_attempts e req 0 w n) = slept w @ map (\<lambda>k. 2 ^ k / 2) [0 ..< n] \<and>
      (case crm_backend e (crm_attempts e req 0 w n) req of
         Responds r \<Rightarrow>
           if status_code r = 429 \<or> (500 \<le> status_code r \<and> status_code r < 600)
           then n = 4 \<and>
                fst (amo_request e (verb req) (url req) (params req) (body req) w) =
                  Inl (HTTPStatusError (status_code r))
           else fst (amo_request e (verb req) (url req) (params req) (body req) w) = Inr r
       | TransportFails \<Rightarrow>
           n = 4 \<and>
           fst (amo_request e (verb req) (url req) (params req) (body req) w) = Inl TransportError)) \<and>
   (\<exists>n\<le>5.
      (\<forall>k<n. rate_limited (sheets_backend e (sheet_attempts e call 0 w k) call)) \<and>
      snd (execute_retrying e call 0 w) = snd (sheets_execute e call (sheet_attempts e call 0 w n)) \<and>
      slept (sheet_attempts e call 0 w n) = slept w @ map (\<lambda>k. 2 ^ k) [0 ..< n] \<and>
      (case sheets_backend e (sheet_attempts e call 0 w n) call of
         Executes res \<Rightarrow> fst (execute_retrying e call 0 w) = Inr ()
       | SheetsFails msg \<Rightarrow>
           fst (execute_retrying e call 0 w) = Inl (HttpError msg) \<and>
           (str_contains ''RATE_LIMIT_EXCEEDED'' msg \<longrightarrow> n = 5)))"
proof
  have req: "\<lparr>verb = verb req, url = url req, params = params req, body = body req\<rparr> = req"
    by simp
  from amo_request_loop_from [of 0 e req w None]
  show "\<exists>n<5.
      (\<forall>k<n. needs_retry (crm_backend e (crm_attempts e req 0 w k) req)) \<and>
      snd (amo_request e (verb req) (url req) (params req) (body req) w) =
        snd (httpx_request e req (crm_attempts e req 0 w n)) \<and>
      slept (crm_attempts e req 0 w n) = slept w @ map (\<lambda>k. 2 ^ k / 2) [0 ..< n] \<and>
      (case crm_backend e (crm_attempts e req 0 w n) req of
         Responds r \<Rightarrow>
           if status_code r = 429 \<or> (500 \<le> status_code r \<and> status_code r < 600)
           then n = 4 \<and>
                fst (amo_request e (verb req) (url req) (params req) (body req) w) =
                  Inl (HTTPStatusError (status_code r))
           else fst (amo_request e (verb req) (url req) (params req) (body req) w) = Inr r
       | TransportFails \<Rightarrow>
           n = 4 \<and>
           fst (amo_request e (verb req) (url req) (params req) (body req) w) = Inl TransportError)"
    unfolding amo_request_def req
    by (simp add: crm_attempts_slept cong: http_outcome.case_cong if_cong)
next
  from execute_retrying_from [of 0 e call w]
  show "\<exists>n\<le>5.
      (\<forall>k<n. rate_limited (sheets_backend e (sheet_attempts e call 0 w k) call)) \<and>
      snd (execute_retrying e call 0 w) = snd (sheets_execute e call (sheet_attempts e call 0 w n)) \<and>
      slept (sheet_attempts e call 0 w n) = slept w @ map (\<lambda>k. 2 ^ k) [0 ..< n] \<and>
      (case sheets_backend e (sheet_attempts e call 0 w n) call of
         Executes res \<Rightarrow> fst (execute_retrying e call 0 w) = Inr ()
       | SheetsFails msg \<Rightarrow>
           fst (execute_retrying e call 0 w) = Inl (HttpError msg) \<and>
           (str_contains ''RATE_LIMIT_EXCEEDED'' msg \<longrightarrow> n = 5))"
    by (simp add: sheet_attempts_slept cong: sheets_outcome.case_cong if_cong)
qed


theorem retry_bounds_witness:
  "(\<exists>n<5.
      snd (amo_request flaky_env GET ''u'' [] None []) =
        snd (httpx_request flaky_env \<lparr>verb = GET, url = ''u'', params = [], body = None\<rparr>
               (crm_attempts flaky_env \<lparr>verb = GET, url = ''u'', params = [], body = None\<rparr> 0 [] n))) \<and>
   needs_retry (crm_backend flaky_env
      (crm_attempts flaky_env \<lparr>verb = GET, url = ''u'', params = [], body = None\<rparr> 0 [] 1)
      \<lparr>verb = GET, url = ''u'', params = [], body = None\<rparr>) \<and>
   fst (amo_request flaky_env GET ''u'' [] None []) = Inr \<lparr>status_code = 404, content = None\<rparr> \<and>
   slept (snd (amo_request flaky_env GET ''u'' [] None [])) = [1 / 2, 1] \<and>
   length (http_calls (snd (amo_request flaky_env GET ''u'' [] None []))) = 3 \<and>
   fst (execute_retrying flaky_env (ValuesAppend ''Sheet1!A:F'' []) 0 []) = Inr () \<and>
   slept (snd (execute_retrying flaky_env (ValuesAppend ''Sheet1!A:F'' []) 0 [])) = [1, 2, 4, 8, 16] \<and>
   length (sheets_calls (snd (execute_retrying flaky_env (ValuesAppend ''Sheet1!A:F'' []) 0 []))) = 6"
proof -
  from retry_bounds [of flaky_env "\<lparr>verb = GET, url = ''u'', params = [], body = None\<rparr>" "[]"
        "ValuesAppend ''Sheet1!A:F'' []"]
  obtain n where "n < 5"
    "snd (amo_request flaky_env GET ''u'' [] None []) =
        snd (httpx_request flaky_env \<lparr>verb = GET, url = ''u'', params = [], body = None\<rparr>
               (crm_attempts flaky_env \<lparr>verb = GET, url = ''u'', params = [], body = None\<rparr> 0 [] n))"
    by auto
  then have inst: "\<exists>n<5.
      snd (amo_request flaky_env GET ''u'' [] None []) =
        snd (httpx_request flaky_env \<lparr>verb = GET, url = ''u'', params = [], body = None\<rparr>
               (crm_attempts flaky_env \<lparr>verb = GET, url = ''u'', params = [], body = None\<rparr> 0 [] n))"
    by blast
  have facts: "needs_retry (crm_backend flaky_env
      (crm_attempts flaky_env \<lparr>verb = GET, url = ''u'', params = [], body = None\<rparr> 0 [] 1)
      \<lparr>verb = GET, url = ''u'', params = [], body = None\<rparr>) \<and>
   fst (amo_request flaky_env GET ''u'' [] None []) = Inr \<lparr>status_code = 404, content = None\<rparr> \<and>
   slept (snd (amo_request flaky_env GET ''u'' [] None [])) = [1 / 2, 1] \<and>
   length (http_calls (snd (amo_request flaky_env GET ''u'' [] None []))) = 3 \<and>
   fst (execute_retrying flaky_env (ValuesAppend ''Sheet1!A:F'' []) 0 []) = Inr () \<and>
   slept (snd (execute_retrying flaky_env (ValuesAppend ''Sheet1!A:F'' []) 0 [])) = [1, 2, 4, 8, 16] \<and>
   length (sheets_calls (snd (execute_retrying flaky_env (ValuesAppend ''Sheet1!A:F'' []) 0 []))) = 6"
    by code_simp
  from inst facts show ?thesis by (rule conjI)
qed

section \<open>Batch commit planner\<close>

declare chunks.simps [simp del]

lemma chunks_Nil [simp]: "chunks n [] = []"
  by (simp add: chunks.simps)

lemma chunks_step: "0 < n \<Longrightarrow> xs \<noteq> [] \<Longrightarrow> chunks n xs = take n xs # chunks n (drop n xs)"
  by (subst chunks.simps) simp

lemma concat_chunks: "0 < n \<Longrightarrow> concat (chunks n xs) = xs"
proof (induction n xs rule: chunks.induct)
  case (1 n xs)
  then show ?case by (cases "xs = []") (simp_all add: chunks_step)
qed

lemma chunks_sizes: "0 < n \<Longrightarrow> c \<in> set (chunks n xs) \<Longrightarrow> c \<noteq> [] \<and> length c \<le> n"
proof (induction n xs rule: chunks.induct)
  case (1 n xs)
  show ?case
  proof (cases "xs = []")
    case True
    with 1 show ?thesis by simp
  next
    case False
    with 1 show ?thesis by (auto simp: chunks_step)
  qed
qed

lemma ceil_div_step:
  fixes n len :: nat
  assumes "0 < n" "0 < len"
  shows "(len + n - 1) div n = Suc ((len - n + n - 1) div n)"
proof (cases "n \<le> len")
  case True
  then have a: "len + n - 1 = (len - 1) + n" and b: "len - n + n - 1 = len - 1"
    using assms by simp_all
  have "((len - 1) + n) div n = Suc ((len - 1) div n)"
    using assms div_add_self2 [of n "len - 1"] by simp
  then show ?thesis unfolding a b .
next
  case False
  then have "len - n = 0" by simp
  moreover have "(len + n - 1) div n = 1"
  proof -
    have "n \<le> len + n - 1" "len + n - 1 < 2 * n" using assms False by simp_all
    then show ?thesis
      by (metis One_nat_def Suc_1 div_nat_eqI mult.commute mult_Suc nat_mult_1_right)
  qed
  ultimately show ?thesis using assms by simp
qed

lemma starts_chunks:
  "0 < n \<Longrightarrow>
   map (\<lambda>i. take n (drop i xs)) (map (\<lambda>k. k * n) [0 ..< (length xs + n - 1) div n]) = chunks n xs"
proof (induction n xs rule: chunks.induct)
  case (1 n xs)
  show ?case
  proof (cases "xs = []")
    case True
    with 1 show ?thesis by simp
  next
    case False
    let ?m = "(length (drop n xs) + n - 1) div n"
    have m: "(length xs + n - 1) div n = Suc ?m"
      using ceil_div_step [of n "length xs"] 1(2) False by simp
    have "[0 ..< Suc ?m] = 0 # map Suc [0 ..< ?m]"
      by (simp add: upt_conv_Cons map_Suc_upt del: upt_Suc)
    then have "map (\<lambda>i. take n (drop i xs)) (map (\<lambda>k. k * n) [0 ..< Suc ?m]) =
          take n xs # map (\<lambda>i. take n (drop i (drop n xs))) (map (\<lambda>k. k * n) [0 ..< ?m])"
      by (simp add: o_def add.commute)
    also have "\<dots> = take n xs # chunks n (drop n xs)"
      using 1 False by simp
    finally show ?thesis using m 1(2) False by (simp add: chunks_step)
  qed
qed

lemma py_range_chunks:
  "0 < step \<Longrightarrow>
   \<exists>starts. py_range (length xs) step = Inr starts \<and>
     map (\<lambda>i. take (nat step) (drop i xs)) starts = chunks (nat step) xs"
  using starts_chunks [of "nat step" xs] by (simp add: py_range_def)


lemma dispatched_append [simp]: "dispatched (w @ v) = dispatched w @ dispatched v"
  by (simp add: dispatched_def)

lemma executed_append [simp]: "executed (w @ v) = executed w @ executed v"
  by (simp add: executed_def)

lemma sheet_attempts_executed:
  "\<forall>k<n. rate_limited (sheets_backend e (sheet_attempts e call a w k) call) \<Longrightarrow>
   executed (sheet_attempts e call a w n) = executed w"
proof (induction n arbitrary: a w)
  case 0
  then show ?case by simp
next
  case (Suc n)
  have first: "rate_limited (sheets_backend e w call)"
    using Suc.prems by (auto dest: spec [of _ 0])
  have rest: "\<forall>k<n. rate_limited (sheets_backend e
      (sheet_attempts e call (a + 1) (sleep (2 ^ a) (snd (sheets_execute e call w))) k) call)"
    using Suc.prems by (auto dest: spec [of _ "Suc k" for k])
  from first have "executed (sleep (2 ^ a) (snd (sheets_execute e call w))) = executed w"
    by (auto simp: sleep_def sheets_execute_def Let_def executed_def rate_limited_def
          split: sheets_outcome.splits)
  with Suc.IH [OF rest] show ?case by simp
qed

lemma execute_retrying_trace:
  "\<exists>r. 1 \<le> r \<and> r \<le> 6 \<and>
     dispatched (snd (execute_retrying e call 0 w)) = dispatched w @ replicate r call \<and>
     executed (snd (execute_retrying e call 0 w)) =
       executed w @ (if fst (execute_retrying e call 0 w) = Inr () then [call] else []) \<and>
     (fst (execute_retrying e call 0 w) = Inr () \<or>
      (\<exists>msg. fst (execute_retrying e call 0 w) = Inl (HttpError msg)))"
proof -
  from execute_retrying_from [of 0 e call w]
  obtain n where n: "n \<le> 5"
    "\<forall>k<n. rate_limited (sheets_backend e (sheet_attempts e call 0 w k) call)"
    "snd (execute_retrying e call 0 w) = snd (sheets_execute e call (sheet_attempts e call 0 w n))"
    "(case sheets_backend e (sheet_attempts e call 0 w n) call of
        Executes res \<Rightarrow> fst (execute_retrying e call 0 w) = Inr ()
      | SheetsFails msg \<Rightarrow>
          fst (execute_retrying e call 0 w) = Inl (HttpError msg) \<and>
          (str_contains ''RATE_LIMIT_EXCEEDED'' msg \<longrightarrow> 0 + n = 5))"
    by auto
  have d: "dispatched (sheet_attempts e call 0 w n) = dispatched w @ replicate n call"
    using sheet_attempts_calls [of e call 0 w n] by (simp add: dispatched_def)
  have x: "executed (sheet_attempts e call 0 w n) = executed w"
    by (rule sheet_attempts_executed [OF n(2)])
  show ?thesis
    apply (rule exI [of _ "Suc n"])
    using n(1,4) d x
    apply (auto simp: n(3) sheets_execute_def Let_def dispatched_def executed_def
             replicate_append_same split: sheets_outcome.splits)
    done
qed


lemma run_calls_append:
  "run_calls e (cs @ ds) w = sbind (run_calls e cs w) (\<lambda>ok w. run_calls e ds w)"
proof (induction cs arbitrary: w)
  case Nil
  then show ?case by simp
next
  case (Cons c cs)
  show ?case
  proof (cases "execute_retrying e c 0 w")
    case (Pair res w1)
    then show ?thesis using Cons.IH by (cases res) simp_all
  qed
qed

lemma update_batches_run:
  "update_batches e ups step starts w =
     run_calls e (map (\<lambda>i. ValuesBatchUpdate (update_data e (take (nat step) (drop i ups)))) starts) w"
proof (induction starts arbitrary: w)
  case Nil
  then show ?case by simp
next
  case (Cons i starts)
  show ?case
  proof (cases "execute_retrying e (ValuesBatchUpdate (update_data e (take (nat step) (drop i ups)))) 0 w")
    case (Pair res w1)
    then show ?thesis using Cons.IH by (cases res) (simp_all add: Let_def)
  qed
qed

lemma append_batches_run:
  "append_batches e apps starts w =
     run_calls e (map (\<lambda>i. ValuesAppend (sheet_name e @ ''!A:F'') (take 500 (drop i apps))) starts) w"
proof (induction starts arbitrary: w)
  case Nil
  then show ?case by simp
next
  case (Cons i starts)
  show ?case
  proof (cases "execute_retrying e (ValuesAppend (sheet_name e @ ''!A:F'') (take 500 (drop i apps))) 0 w")
    case (Pair res w1)
    then show ?thesis using Cons.IH by (cases res) (simp_all add: Let_def)
  qed
qed

lemma commit_runs_plan:
  assumes "0 < step"
  shows "commit_sheet_changes e ups apps step w =
     (if sheet_credentials e then run_calls e (commit_plan e (nat step) ups apps) w
      else (Inl HTTPException, w))"
proof -
  obtain su where su: "py_range (length ups) step = Inr su"
    "map (\<lambda>i. take (nat step) (drop i ups)) su = chunks (nat step) ups"
    using py_range_chunks [OF assms, of ups] by blast
  obtain sa where sa: "py_range (length apps) 500 = Inr sa"
    "map (\<lambda>i. take (nat 500) (drop i apps)) sa = chunks (nat 500) apps"
    using py_range_chunks [of 500 apps] by auto
  have u: "map (\<lambda>i. ValuesBatchUpdate (update_data e (take (nat step) (drop i ups)))) su =
      map (\<lambda>c. ValuesBatchUpdate (update_data e c)) (chunks (nat step) ups)"
    using su(2) [symmetric] by (simp add: o_def)
  have a: "map (\<lambda>i. ValuesAppend (sheet_name e @ ''!A:F'') (take 500 (drop i apps))) sa =
      map (\<lambda>c. ValuesAppend (sheet_name e @ ''!A:F'') c) (chunks 500 apps)"
    using sa(2) [symmetric] by (simp add: o_def)
  show ?thesis
    by (simp add: commit_sheet_changes_def get_sheet_service_def su(1) sa(1) update_batches_run
          append_batches_run u a commit_plan_def run_calls_append)
qed

lemma run_calls_trace:
  "\<exists>reps. length reps \<le> length calls \<and> (\<forall>r\<in>set reps. 1 \<le> r \<and> r \<le> 6) \<and>
     dispatched (snd (run_calls e calls w)) =
       dispatched w @ concat (map2 replicate reps calls) \<and>
     executed (snd (run_calls e calls w)) =
       executed w @ take (if fst (run_calls e calls w) = Inr () then length reps else length reps - 1) calls \<and>
     (fst (run_calls e calls w) = Inr () \<longrightarrow> length reps = length calls) \<and>
     (fst (run_calls e calls w) \<noteq> Inr () \<longrightarrow> reps \<noteq> [])"
proof (induction calls arbitrary: w)
  case Nil
  show ?case by (rule exI [of _ "[]"]) simp
next
  case (Cons c calls)
  from execute_retrying_trace [of e c w]
  obtain r where r: "1 \<le> r" "r \<le> 6"
    "dispatched (snd (execute_retrying e c 0 w)) = dispatched w @ replicate r c"
    "executed (snd (execute_retrying e c 0 w)) =
       executed w @ (if fst (execute_retrying e c 0 w) = Inr () then [c] else [])"
    "fst (execute_retrying e c 0 w) = Inr () \<or>
      (\<exists>msg. fst (execute_retrying e c 0 w) = Inl (HttpError msg))"
    by blast
  obtain res w1 where ex: "execute_retrying e c 0 w = (res, w1)"
    by (cases "execute_retrying e c 0 w")
  show ?case
  proof (cases res)
    case (Inl err)
    show ?thesis
      apply (rule exI [of _ "[r]"])
      using r ex Inl
      apply simp
      done
  next
    case (Inr u)
    from Cons.IH [of w1]
    obtain reps where reps: "length reps \<le> length calls" "\<forall>r\<in>set reps. 1 \<le> r \<and> r \<le> 6"
      "dispatched (snd (run_calls e calls w1)) = dispatched w1 @ concat (map2 replicate reps calls)"
      "executed (snd (run_calls e calls w1)) =
         executed w1 @ take (if fst (run_calls e calls w1) = Inr () then length reps else length reps - 1) calls"
      "fst (run_calls e calls w1) = Inr () \<longrightarrow> length reps = length calls"
      "fst (run_calls e calls w1) \<noteq> Inr () \<longrightarrow> reps \<noteq> []"
      by blast
    show ?thesis
      apply (rule exI [of _ "r # reps"])
      using r ex Inr reps
      apply (auto simp: Suc_diff_le take_Cons')
      done
  qed
qed


lemma chunks_250_100:
  assumes "length xs = 250"
  shows "map length (chunks 100 xs) = [100, 100, 50]"
proof -
  have 1: "chunks 100 xs = take 100 xs # chunks 100 (drop 100 xs)"
    using assms by (intro chunks_step) auto
  have 2: "chunks 100 (drop 100 xs) = take 100 (drop 100 xs) # chunks 100 (drop 100 (drop 100 xs))"
    using assms by (intro chunks_step) auto
  have 3: "chunks 100 (drop 100 (drop 100 xs)) =
      take 100 (drop 100 (drop 100 xs)) # chunks 100 (drop 100 (drop 100 (drop 100 xs)))"
    using assms by (intro chunks_step) auto
  have 4: "drop 100 (drop 100 (drop 100 xs)) = []"
    using assms by simp
  show ?thesis
    unfolding 1 2 3 4 using assms by simp
qed

lemma plan_250_100:
  assumes "length ups = 250"
  shows "map batch_size (commit_plan e 100 ups []) = [100, 100, 50]"
  using chunks_250_100 [OF assms]
  by (simp add: commit_plan_def o_def update_data_def)

text \<open>
  Claim C8. With a positive \<^verbatim>\<open>chunk_size\<close>, \<^verbatim>\<open>commit_sheet_changes\<close> sends the calls of
  \<open>commit_plan\<close> in order, each under the retry loop: one batch update for every chunk of
  at most \<^verbatim>\<open>chunk_size\<close> updates, then one append for every chunk of at most 500 appended
  rows. The chunks are not empty, keep the order of the input and together make up the
  input. The range of an update for row index \<open>i\<close> is row \<open>i + 2\<close> of the sheet. Every call
  is sent between one and six times, no call is sent before the one in front of it in the
  plan was carried out, and when the commit returns every call of the plan was carried
  out once.
\<close>

theorem commit_dispatches_plan:
  assumes "0 < chunk_size"
  shows "commit_sheet_changes e ups apps chunk_size w =
           (if sheet_credentials e then run_calls e (commit_plan e (nat chunk_size) ups apps) w
            else (Inl HTTPException, w)) \<and>
         (\<exists>reps. length reps \<le> length (commit_plan e (nat chunk_size) ups apps) \<and>
            (\<forall>r\<in>set reps. 1 \<le> r \<and> r \<le> 6) \<and>
            dispatched (snd (commit_sheet_changes e ups apps chunk_size w)) =
              dispatched w @ concat (map2 replicate reps (commit_plan e (nat chunk_size) ups apps)) \<and>
            (fst (commit_sheet_changes e ups apps chunk_size w) = Inr () \<longrightarrow>
               length reps = length (commit_plan e (nat chunk_size) ups apps) \<and>
               executed (snd (commit_sheet_changes e ups apps chunk_size w)) =
                 executed w @ commit_plan e (nat chunk_size) ups apps)) \<and>
         concat (chunks (nat chunk_size) ups) = ups \<and>
         (\<forall>c\<in>set (chunks (nat chunk_size) ups). c \<noteq> [] \<and> length c \<le> nat chunk_size) \<and>
         concat (chunks 500 apps) = apps \<and>
         (\<forall>c\<in>set (chunks 500 apps). c \<noteq> [] \<and> length c \<le> 500) \<and>
         (\<forall>c. update_data e c =
            map (\<lambda>(i, vals). (sheet_name e @ ''!A'' @ str_nat (i + 2) @ '':F'' @ str_nat (i + 2), [vals])) c)"
proof -
  let ?plan = "commit_plan e (nat chunk_size) ups apps"
  let ?R = "commit_sheet_changes e ups apps chunk_size w"
  have run: "?R = (if sheet_credentials e then run_calls e ?plan w else (Inl HTTPException, w))"
    by (rule commit_runs_plan [OF assms])
  have trace: "\<exists>reps. length reps \<le> length ?plan \<and> (\<forall>r\<in>set reps. 1 \<le> r \<and> r \<le> 6) \<and>
            dispatched (snd ?R) = dispatched w @ concat (map2 replicate reps ?plan) \<and>
            (fst ?R = Inr () \<longrightarrow> length reps = length ?plan \<and> executed (snd ?R) = executed w @ ?plan)"
  proof (cases "sheet_credentials e")
    case True
    from run_calls_trace [of ?plan e w]
    obtain reps where reps: "length reps \<le> length ?plan" "\<forall>r\<in>set reps. 1 \<le> r \<and> r \<le> 6"
      "dispatched (snd (run_calls e ?plan w)) = dispatched w @ concat (map2 replicate reps ?plan)"
      "executed (snd (run_calls e ?plan w)) =
         executed w @ take (if fst (run_calls e ?plan w) = Inr () then length reps else length reps - 1) ?plan"
      "fst (run_calls e ?plan w) = Inr () \<longrightarrow> length reps = length ?plan"
      by blast
    show ?thesis
      apply (rule exI [of _ reps])
      using reps True
      apply (simp add: run)
      done
  next
    case False
    show ?thesis
      apply (rule exI [of _ "[]"])
      using False
      apply (simp add: run)
      done
  qed
  have n: "0 < nat chunk_size" using assms by simp
  have sizes: "\<forall>c\<in>set (chunks (nat chunk_size) ups). c \<noteq> [] \<and> length c \<le> nat chunk_size"
    using chunks_sizes [OF n] by blast
  have sizes500: "\<forall>c\<in>set (chunks 500 apps). c \<noteq> [] \<and> length c \<le> 500"
    using chunks_sizes [of 500 _ apps] by simp
  have rows: "\<forall>c. update_data e c =
      map (\<lambda>(i, vals). (sheet_name e @ ''!A'' @ str_nat (i + 2) @ '':F'' @ str_nat (i + 2), [vals])) c"
    by (simp add: update_data_def Let_def)
  from run trace concat_chunks [OF n, of ups] sizes concat_chunks [of 500 apps] sizes500 rows
  show ?thesis by (intro conjI) simp_all
qed

theorem commit_dispatches_plan_witness:
  "(0::int) < 100 \<and>
   commit_sheet_changes steady_env (replicate 250 (0, [])) [] 100 [] =
     run_calls steady_env (commit_plan steady_env 100 (replicate 250 (0, [])) []) [] \<and>
   map batch_size (commit_plan steady_env 100 (replicate 250 (0, [])) []) = [100, 100, 50] \<and>
   map batch_size
     (dispatched (snd (commit_sheet_changes steady_env (numbered_updates 7) [[JStr ''x'']] 3 []))) =
     [3, 3, 1, 1] \<and>
   update_data steady_env [(3, [JStr ''a''])] = [(''Sheet1!A5:F5'', [[JStr ''a'']])]"
proof -
  have pos: "(0::int) < 100" by simp
  have creds: "sheet_credentials steady_env" by (simp add: steady_env_def)
  from commit_dispatches_plan [OF pos, of steady_env "replicate 250 (0, [])" "[]" "[]"]
  have run: "commit_sheet_changes steady_env (replicate 250 (0, [])) [] 100 [] =
     run_calls steady_env (commit_plan steady_env 100 (replicate 250 (0, [])) []) []"
    using creds by simp
  have sizes: "map batch_size (commit_plan steady_env 100 (replicate 250 (0, [])) []) = [100, 100, 50]"
    by (rule plan_250_100) simp
  have facts: "map batch_size
     (dispatched (snd (commit_sheet_changes steady_env (numbered_updates 7) [[JStr ''x'']] 3 []))) =
     [3, 3, 1, 1] \<and>
   update_data steady_env [(3, [JStr ''a''])] = [(''Sheet1!A5:F5'', [[JStr ''a'']])]"
    by code_simp
  from pos run sizes facts show ?thesis by blast
qed

section \<open>Push: rows that already have a deal\<close>

lemma process_row_linked:
  "parse_row cells = Inr d \<Longrightarrow> deal_id d \<noteq> [] \<Longrightarrow> process_row e idx cells acc w = (Inr acc, w)"
  by (simp add: process_row_def)

lemma process_row_created:
  assumes "process_row e idx cells acc w = (Inr acc1, w1)"
  shows "acc1 = acc \<or>
         (\<exists>c d. acc1 = acc @ [c] \<and> row c = idx + 2 \<and> parse_row cells = Inr d \<and> deal_id d = [])"
proof (cases "parse_row cells")
  case (Inl err)
  with assms show ?thesis by (simp add: process_row_def)
next
  case (Inr d)
  show ?thesis
  proof (cases "deal_id d = []")
    case False
    with assms Inr show ?thesis by (simp add: process_row_def)
  next
    case True
    with assms Inr show ?thesis
      by (auto simp: process_row_def sbind_eq_Inr)
  qed
qed

lemma process_rows_created:
  "process_rows e idx rows acc w = (Inr acc', w') \<Longrightarrow> c \<in> set acc' \<Longrightarrow>
   c \<in> set acc \<or>
   (\<exists>i<length rows. row c = idx + i + 2 \<and> (\<exists>d. parse_row (rows ! i) = Inr d \<and> deal_id d = []))"
proof (induction rows arbitrary: idx acc w)
  case Nil
  then show ?case by simp
next
  case (Cons cells rest)
  from Cons.prems(1) obtain acc1 w1 where
    step: "process_row e idx cells acc w = (Inr acc1, w1)" and
    more: "process_rows e (idx + 1) rest acc1 w1 = (Inr acc', w')"
    by (auto simp: sbind_eq_Inr)
  from Cons.IH [OF more Cons.prems(2)]
  consider (old) "c \<in> set acc1"
    | (new) i where "i < length rest" "row c = idx + 1 + i + 2"
        "\<exists>d. parse_row (rest ! i) = Inr d \<and> deal_id d = []"
    by blast
  then show ?case
  proof cases
    case old
    with process_row_created [OF step] show ?thesis by auto
  next
    case new
    then have "Suc i < length (cells # rest)" "row c = idx + Suc i + 2"
      "\<exists>d. parse_row ((cells # rest) ! Suc i) = Inr d \<and> deal_id d = []"
      by simp_all
    then show ?thesis by blast
  qed
qed

lemma process_rows_all_linked:
  "\<forall>cells\<in>set rows. \<exists>d. parse_row cells = Inr d \<and> deal_id d \<noteq> [] \<Longrightarrow>
   process_rows e idx rows acc w = (Inr acc, w)"
proof (induction rows arbitrary: idx)
  case Nil
  then show ?case by simp
next
  case (Cons cells rest)
  then obtain d where "parse_row cells = Inr d" "deal_id d \<noteq> []" by auto
  then have "process_row e idx cells acc w = (Inr acc, w)" by (rule process_row_linked)
  with Cons show ?case by simp
qed

lemma read_rows_no_http: "read_rows e w = (res, w1) \<Longrightarrow> http_calls w1 = http_calls w"
  by (auto simp: read_rows_def get_sheet_service_def sheets_execute_def Let_def
        split: if_splits sheets_outcome.splits)

text \<open>
  A budget cell is tested stripped and converted unstripped. A cell that \<^verbatim>\<open>strip\<close> reduces
  to digits but that \<^verbatim>\<open>int\<close> refuses (padding with a separator 28 to 31, a superscript
  digit, more than 4300 digits) makes \<^verbatim>\<open>parse_row\<close> raise, and the run ends there, before
  that row's deal reference is looked at and before any request for it.
\<close>

lemma budget_cell_conversion:
  "parse_row row_padded_budget = Inl ValueError \<and>
   process_new_rows (sheet_env [row_padded_budget] crm_creating) [] =
     (Inl ValueError,
      [Sheets (ValuesGet ''Sheet1!A2:F'') (Executes (Some [row_padded_budget]))]) \<and>
   parse_row [''a'', ''b'', ''c'', [char_of (160 :: nat), CHR ''1'', CHR ''2'', char_of (133 :: nat)]] =
     Inr \<lparr>name = ''a'', phone = ''b'', email = ''c'', budget = 12, deal_id = []\<rparr> \<and>
   parse_row [''a'', ''b'', ''c'', [char_of (178 :: nat)]] = Inl ValueError \<and>
   parse_row [''a'', ''b'', ''c'', ''+12''] =
     Inr \<lparr>name = ''a'', phone = ''b'', email = ''c'', budget = 0, deal_id = []\<rparr>"
  by code_simp

lemma int_of_digits_limit:
  assumes "list_all is_decimal s" "4300 < length s"
  shows "int_of_digits s = Inl ValueError"
proof -
  have keep: "dropWhile int_space_char xs = xs" if "list_all is_decimal xs" for xs
    using that by (cases xs) (auto simp: is_decimal_def int_space_char_def)
  have "list_all is_decimal (rev s)" using assms(1) by (simp add: list_all_iff)
  then have "rev (dropWhile int_space_char (rev (dropWhile int_space_char s))) = s"
    using assms(1) by (simp add: keep)
  then show ?thesis
    using assms(2) by (simp add: int_of_digits_def int_max_str_digits_def)
qed

text \<open>
  Claim C1. A row that \<^verbatim>\<open>parse_row\<close> accepts and whose parsed \<^verbatim>\<open>deal_id\<close> is not empty
  passes through the loop of
  \<^verbatim>\<open>process_new_rows\<close> without any effect: the trace and the \<^verbatim>\<open>created\<close> list are
  unchanged, so no contact is searched or created and no deal is created for it. Every
  entry of \<^verbatim>\<open>created\<close> names the sheet row of a row whose \<^verbatim>\<open>deal_id\<close> was empty. On a
  snapshot in which every row has its \<^verbatim>\<open>deal_id\<close>, a run returns an empty \<^verbatim>\<open>created\<close> list
  and sends nothing to the CRM.
\<close>

theorem linked_rows_are_skipped:
  "(\<forall>d. parse_row cells = Inr d \<and> deal_id d \<noteq> [] \<longrightarrow>
      process_row e idx cells acc w = (Inr acc, w)) \<and>
   (\<forall>acc' w'. process_rows e idx rows acc w = (Inr acc', w') \<longrightarrow>
      (\<forall>c\<in>set acc'. c \<in> set acc \<or>
         (\<exists>i<length rows. row c = idx + i + 2 \<and>
            (\<exists>d. parse_row (rows ! i) = Inr d \<and> deal_id d = [])))) \<and>
   ((\<forall>cells\<in>set rows. \<exists>d. parse_row cells = Inr d \<and> deal_id d \<noteq> []) \<and>
    read_rows e w = (Inr rows, w1) \<longrightarrow>
      process_new_rows e w = (Inr \<lparr>created = [], checked_rows = length rows\<rparr>, w1) \<and>
      http_calls w1 = http_calls w)"
proof (intro conjI allI impI)
  fix d assume "parse_row cells = Inr d \<and> deal_id d \<noteq> []"
  then show "process_row e idx cells acc w = (Inr acc, w)"
    by (auto intro: process_row_linked)
next
  fix acc' w' assume "process_rows e idx rows acc w = (Inr acc', w')"
  then show "\<forall>c\<in>set acc'. c \<in> set acc \<or>
         (\<exists>i<length rows. row c = idx + i + 2 \<and>
            (\<exists>d. parse_row (rows ! i) = Inr d \<and> deal_id d = []))"
    using process_rows_created by blast
next
  assume a: "(\<forall>cells\<in>set rows. \<exists>d. parse_row cells = Inr d \<and> deal_id d \<noteq> []) \<and>
    read_rows e w = (Inr rows, w1)"
  then have "process_rows e 0 rows [] w1 = (Inr [], w1)"
    by (intro process_rows_all_linked) simp
  with a show "process_new_rows e w = (Inr \<lparr>created = [], checked_rows = length rows\<rparr>, w1)"
    by (simp add: process_new_rows_def)
next
  assume "(\<forall>cells\<in>set rows. \<exists>d. parse_row cells = Inr d \<and> deal_id d \<noteq> []) \<and>
    read_rows e w = (Inr rows, w1)"
  then show "http_calls w1 = http_calls w" using read_rows_no_http by blast
qed

theorem linked_rows_are_skipped_witness:
  "(\<exists>d. parse_row row_ann = Inr d \<and> deal_id d = ''555'') \<and>
   process_row (sheet_env [row_ann, row_jane] crm_creating) 0 row_ann [] [] = (Inr [], []) \<and>
   fst (process_new_rows (sheet_env [row_ann, row_jane] crm_creating) []) =
     Inr \<lparr>created = [\<lparr>row = 3, lead_id = JNum 555, contact_id = JNum 11\<rparr>], checked_rows = 2\<rparr> \<and>
   fst (process_new_rows (sheet_env [row_ann, row_ann] crm_creating) []) =
     Inr \<lparr>created = [], checked_rows = 2\<rparr> \<and>
   http_calls (snd (process_new_rows (sheet_env [row_ann, row_ann] crm_creating) [])) = []"
proof -
  let ?e = "sheet_env [row_ann, row_jane] crm_creating"
  let ?e2 = "sheet_env [row_ann, row_ann] crm_creating"
  let ?w1 = "[Sheets (ValuesGet ''Sheet1!A2:F'') (Executes (Some [row_ann, row_ann]))]"
  have p: "parse_row row_ann =
      Inr \<lparr>name = ''Ann'', phone = ''+7 999 000 00 00'', email = ''ann@mail.org'', budget = 10,
           deal_id = ''555''\<rparr>"
    by code_simp
  then have p1: "\<exists>d. parse_row row_ann = Inr d \<and> deal_id d = ''555''" by simp
  have all: "\<forall>cells\<in>set [row_ann, row_ann]. \<exists>d. parse_row cells = Inr d \<and> deal_id d \<noteq> []"
    using p by simp
  have rd: "read_rows ?e2 [] = (Inr [row_ann, row_ann], ?w1)"
    by (simp add: read_rows_def get_sheet_service_def sheets_execute_def sheet_env_def Let_def)
  note inst = linked_rows_are_skipped [of row_ann ?e 0 "[]" "[]"]
  note inst2 = linked_rows_are_skipped [of row_ann ?e2 0 "[]" "[]" "[row_ann, row_ann]" ?w1]
  from inst p have skip: "process_row ?e 0 row_ann [] [] = (Inr [], [])" by simp
  from inst2 all rd have run2:
    "process_new_rows ?e2 [] = (Inr \<lparr>created = [], checked_rows = length [row_ann, row_ann]\<rparr>, ?w1)"
    by blast
  have run1: "fst (process_new_rows ?e []) =
      Inr \<lparr>created = [\<lparr>row = 3, lead_id = JNum 555, contact_id = JNum 11\<rparr>], checked_rows = 2\<rparr>"
    by code_simp
  from p1 skip run1 run2 show ?thesis by simp
qed

section \<open>Push: contact resolution and CRM requests\<close>

text \<open>
  Claim C4 says that every CRM request of a push run goes through the executor. The
  search and the creation of a contact do; \<^verbatim>\<open>amo_create_lead\<close> calls \<^verbatim>\<open>httpx.post\<close>
  itself. Against a CRM that answers the first POST for a deal with 429 the run stops
  with that status after one request and no sleep, although a second attempt would have
  been served; the same refusal of the first POST for a contact is retried after half a
  second and the run succeeds.
\<close>

theorem lead_creation_not_retried:
  "fst (process_new_rows (sheet_env [row_jane] (crm_busy_once ''https://crm/api/v4/leads'')) []) =
     Inl (HTTPStatusError 429) \<and>
   requests_to ''https://crm/api/v4/leads''
     (snd (process_new_rows (sheet_env [row_jane] (crm_busy_once ''https://crm/api/v4/leads'')) [])) = 1 \<and>
   slept (snd (process_new_rows (sheet_env [row_jane] (crm_busy_once ''https://crm/api/v4/leads'')) [])) = [] \<and>
   fst (process_new_rows (sheet_env [row_jane] (crm_busy_once ''https://crm/api/v4/contacts'')) []) =
     Inr \<lparr>created = [\<lparr>row = 2, lead_id = JNum 555, contact_id = JNum 11\<rparr>], checked_rows = 1\<rparr> \<and>
   requests_to ''https://crm/api/v4/contacts''
     (snd (process_new_rows (sheet_env [row_jane] (crm_busy_once ''https://crm/api/v4/contacts'')) [])) = 3 \<and>
   slept (snd (process_new_rows (sheet_env [row_jane] (crm_busy_once ''https://crm/api/v4/contacts'')) [])) = [1 / 2]"
  by code_simp

declare find_contact.simps [simp del]

lemma sbind_prefix:
  assumes "prefix v (snd m)" and "\<And>x w1. prefix w1 (snd (f x w1))"
  shows "prefix v (snd (sbind m f))"
proof (cases m)
  case (Pair res w1)
  show ?thesis
  proof (cases res)
    case (Inl err)
    with Pair assms(1) show ?thesis by simp
  next
    case (Inr x)
    have "prefix w1 (snd (f x w1))" by (rule assms(2))
    with Pair Inr assms(1) show ?thesis by (auto intro: prefix_order.trans)
  qed
qed

lemma amo_request_loop_extends: "prefix w (snd (amo_request_loop e req a prev w))"
proof (induction e req a prev w rule: amo_request_loop.induct)
  case (1 e req attempt prev w)
  have step: "\<And>d v. prefix (sleep d (w @ v)) u \<Longrightarrow> prefix w u" for u
    by (auto simp: sleep_def prefix_def)
  show ?case
    apply (subst amo_request_loop.simps)
    using 1
    apply (auto simp: httpx_request_def Let_def split: http_outcome.splits option.splits sum.splits
             intro!: step)
    done
qed


lemma amo_request_loop_first:
  assumes "a < 5"
  shows "prefix (w @ [Http req (crm_backend e w req)]) (snd (amo_request_loop e req a prev w))"
proof -
  let ?w1 = "w @ [Http req (crm_backend e w req)]"
  have later: "prefix ?w1 (snd (amo_request_loop e req b p (sleep d ?w1)))" for b p d
  proof -
    have "prefix ?w1 (sleep d ?w1)" by (simp add: sleep_def)
    then show ?thesis
      using amo_request_loop_extends [of "sleep d ?w1" e req b p] by (rule prefix_order.trans)
  qed
  show ?thesis
    apply (subst amo_request_loop.simps)
    using assms later
    apply (auto simp: httpx_request_def Let_def split: http_outcome.splits sum.splits)
    done
qed

lemma amo_request_first:
  "prefix (w @ [Http \<lparr>verb = m, url = u, params = ps, body = b\<rparr>
                  (crm_backend e w \<lparr>verb = m, url = u, params = ps, body = b\<rparr>)])
     (snd (amo_request e m u ps b w))"
  unfolding amo_request_def by (rule amo_request_loop_first) simp

lemma amo_request_extends: "prefix w (snd (amo_request e m u ps b w))"
  unfolding amo_request_def by (rule amo_request_loop_extends)

lemma snd_sbind_pure:
  "snd (sbind m (\<lambda>x w. (g x, w))) = snd m"
  by (cases m; cases "fst m") (auto simp: sbind_def)

lemma amo_find_contact_first:
  assumes "q \<noteq> []"
  shows "prefix (w @ [Http (contact_query e q) (crm_backend e w (contact_query e q))])
           (snd (amo_find_contact e q w))"
proof -
  have "snd (amo_find_contact e q w) =
      snd (amo_request e GET (AMO_BASE_URL e @ ''/api/v4/contacts'')
             [(''query'', JStr (if CHR ''@'' \<in> set q then q else normalize_phone q))] None w)"
    using assms
    by (cases "amo_request e GET (AMO_BASE_URL e @ ''/api/v4/contacts'')
             [(''query'', JStr (if CHR ''@'' \<in> set q then q else normalize_phone q))] None w";
        cases "fst (amo_request e GET (AMO_BASE_URL e @ ''/api/v4/contacts'')
             [(''query'', JStr (if CHR ''@'' \<in> set q then q else normalize_phone q))] None w)")
       (auto simp: amo_find_contact_def Let_def)
  then show ?thesis
    using amo_request_first [of w GET "AMO_BASE_URL e @ ''/api/v4/contacts''"
        "[(''query'', JStr (if CHR ''@'' \<in> set q then q else normalize_phone q))]" None e]
    by (simp add: contact_query_def)
qed

lemma amo_find_contact_extends: "prefix w (snd (amo_find_contact e q w))"
proof (cases "q = []")
  case True
  then show ?thesis by (simp add: amo_find_contact_def)
next
  case False
  have "prefix w (w @ [Http (contact_query e q) (crm_backend e w (contact_query e q))])" by simp
  then show ?thesis using amo_find_contact_first [OF False] by (rule prefix_order.trans)
qed

lemma find_contact_extends: "prefix w (snd (find_contact e qs w))"
proof (induction qs arbitrary: w)
  case Nil
  then show ?case by (simp add: find_contact.simps)
next
  case (Cons q qs)
  have "prefix w (snd (if q \<noteq> [] then amo_find_contact e q w else (Inr JNull, w)))"
    by (simp add: amo_find_contact_extends)
  then show ?case
    unfolding find_contact.simps
    by (rule sbind_prefix) (simp add: Cons.IH)
qed

lemma amo_create_contact_first:
  "\<exists>data out. prefix (w @ [Http \<lparr>verb = POST, url = AMO_BASE_URL e @ ''/api/v4/contacts'',
                                 params = [], body = Some data\<rparr> out])
     (snd (amo_create_contact e nm ph em w))"
proof -
  let ?data = "JArr [JObj [(''name'', JStr (if nm \<noteq> [] then nm else [])),
     (''custom_fields_values'', JArr ((if normalize_phone ph \<noteq> []
                 then [JObj [(''field_code'', JStr ''PHONE''),
                             (''values'', JArr [JObj [(''value'', JStr (normalize_phone ph))]])]]
                 else [])
                @ (if em \<noteq> []
                   then [JObj [(''field_code'', JStr ''EMAIL''),
                               (''values'', JArr [JObj [(''value'', JStr em)]])]]
                   else [])))]]"
  let ?req = "\<lparr>verb = POST, url = AMO_BASE_URL e @ ''/api/v4/contacts'', params = [], body = Some ?data\<rparr>"
  have "snd (amo_create_contact e nm ph em w) =
      snd (amo_request e POST (AMO_BASE_URL e @ ''/api/v4/contacts'') [] (Some ?data) w)"
    by (simp add: amo_create_contact_def Let_def snd_sbind_pure)
  then have "prefix (w @ [Http ?req (crm_backend e w ?req)]) (snd (amo_create_contact e nm ph em w))"
    using amo_request_first [of w POST "AMO_BASE_URL e @ ''/api/v4/contacts''" "[]" "Some ?data" e]
    by simp
  then show ?thesis by blast
qed

lemma amo_create_contact_extends: "prefix w (snd (amo_create_contact e nm ph em w))"
proof -
  from amo_create_contact_first [of w e nm ph em]
  obtain data out where "prefix (w @ [Http \<lparr>verb = POST, url = AMO_BASE_URL e @ ''/api/v4/contacts'',
       params = [], body = Some data\<rparr> out]) (snd (amo_create_contact e nm ph em w))"
    by blast
  then show ?thesis by (meson prefix_order.trans prefixI)
qed

lemma amo_create_lead_extends: "prefix w (snd (amo_create_lead e price cid w))"
  by (auto simp: amo_create_lead_def Let_def httpx_request_def split: http_outcome.splits)

lemma write_deal_id_extends: "prefix w (snd (write_deal_id e idx lead w))"
  by (auto simp: write_deal_id_def Let_def get_sheet_service_def sheets_execute_def
        split: sheets_outcome.splits)


lemma amo_request_loop_returns:
  assumes "a < 5" "crm_backend e w req = Responds r"
    and "\<not> (status_code r = 429 \<or> (500 \<le> status_code r \<and> status_code r < 600))"
  shows "amo_request_loop e req a prev w = (Inr r, w @ [Http req (Responds r)])"
  using assms by (subst amo_request_loop.simps) (auto simp: httpx_request_def Let_def)

lemma amo_find_contact_empty: "amo_find_contact e [] w = (Inr JNull, w)"
  by (simp add: amo_find_contact_def)

lemma amo_find_contact_not_200:
  assumes "query \<noteq> []"
    and "amo_request e GET (AMO_BASE_URL e @ ''/api/v4/contacts'') (params (contact_query e query)) None w
           = (Inr r, w1)"
    and "status_code r \<noteq> 200"
  shows "amo_find_contact e query w = (Inr JNull, w1)"
  using assms by (auto simp: amo_find_contact_def contact_query_def Let_def)

lemma amo_find_contact_refused:
  assumes refused: "\<forall>v req. verb req = GET \<longrightarrow>
      (\<exists>r. crm_backend e v req = Responds r \<and> status_code r \<noteq> 200 \<and> \<not> needs_retry (Responds r))"
  shows "\<exists>w1. amo_find_contact e q w = (Inr JNull, w1)"
proof (cases "q = []")
  case True
  then show ?thesis by (simp add: amo_find_contact_empty)
next
  case False
  let ?req = "contact_query e q"
  have "verb ?req = GET" by (simp add: contact_query_def)
  with refused obtain r where r: "crm_backend e w ?req = Responds r" "status_code r \<noteq> 200"
    "\<not> needs_retry (Responds r)"
    by blast
  then have "amo_request_loop e ?req 0 None w = (Inr r, w @ [Http ?req (Responds r)])"
    by (intro amo_request_loop_returns) (auto simp: needs_retry_def)
  then have "amo_request e GET (AMO_BASE_URL e @ ''/api/v4/contacts'') (params ?req) None w =
      (Inr r, w @ [Http ?req (Responds r)])"
    by (simp add: amo_request_def contact_query_def)
  from amo_find_contact_not_200 [OF False this r(2)] show ?thesis by blast
qed

lemma find_contact_refused:
  assumes refused: "\<forall>v req. verb req = GET \<longrightarrow>
      (\<exists>r. crm_backend e v req = Responds r \<and> status_code r \<noteq> 200 \<and> \<not> needs_retry (Responds r))"
  shows "\<exists>w1. find_contact e qs w = (Inr JNull, w1)"
proof (induction qs arbitrary: w)
  case Nil
  then show ?case by (simp add: find_contact.simps)
next
  case (Cons q qs)
  have "\<exists>w1. (if q \<noteq> [] then amo_find_contact e q w else (Inr JNull, w)) = (Inr JNull, w1)"
    using amo_find_contact_refused [OF refused, of q w] by (cases "q = []") simp_all
  then obtain w1 where
    "(if q \<noteq> [] then amo_find_contact e q w else (Inr JNull, w)) = (Inr JNull, w1)" ..
  then show ?case using Cons.IH [of w1] by (simp add: find_contact.simps)
qed

lemma process_row_creates_contact:
  assumes "parse_row cells = Inr d" "deal_id d = []"
    and "find_contact e [email d, phone d] w = (Inr found, w1)" "\<not> truthy found"
  shows "\<exists>data out. prefix (w1 @ [Http \<lparr>verb = POST, url = AMO_BASE_URL e @ ''/api/v4/contacts'',
                                        params = [], body = Some data\<rparr> out])
           (snd (process_row e idx cells acc w))"
proof -
  from amo_create_contact_first [of w1 e "name d" "phone d" "email d"]
  obtain data out where first: "prefix (w1 @ [Http \<lparr>verb = POST, url = AMO_BASE_URL e @ ''/api/v4/contacts'',
       params = [], body = Some data\<rparr> out]) (snd (amo_create_contact e (name d) (phone d) (email d) w1))"
    by blast
  have "process_row e idx cells acc w =
      sbind (amo_create_contact e (name d) (phone d) (email d) w1) (\<lambda>cid w.
      sbind (amo_create_lead e (budget d) cid w) (\<lambda>lead w.
      sbind (write_deal_id e idx lead w) (\<lambda>ok w.
        (Inr (acc @ [\<lparr>row = idx + 2, lead_id = lead, contact_id = cid\<rparr>]), w))))"
    using assms by (simp add: process_row_def)
  moreover have "prefix (w1 @ [Http \<lparr>verb = POST, url = AMO_BASE_URL e @ ''/api/v4/contacts'',
       params = [], body = Some data\<rparr> out])
     (snd (sbind (amo_create_contact e (name d) (phone d) (email d) w1) (\<lambda>cid w.
      sbind (amo_create_lead e (budget d) cid w) (\<lambda>lead w.
      sbind (write_deal_id e idx lead w) (\<lambda>ok w.
        (Inr (acc @ [\<lparr>row = idx + 2, lead_id = lead, contact_id = cid\<rparr>]), w))))))"
    by (intro sbind_prefix first amo_create_lead_extends write_deal_id_extends) simp
  ultimately show ?thesis by auto
qed

text \<open>
  Claim C10. \<^verbatim>\<open>amo_find_contact\<close> returns \<^verbatim>\<open>None\<close> for the empty query and leaves the trace
  as it is; it returns \<^verbatim>\<open>None\<close> for every response the executor hands back whose status
  is not 200. When the CRM answers every search with such a status that the executor
  does not retry, the lookup of an unlinked row ends with no contact and the next request
  of the row is the POST that creates a contact: the failure is not raised.
\<close>

theorem failed_lookup_is_no_match:
  "amo_find_contact e [] w = (Inr JNull, w) \<and>
   (\<forall>r w1. query \<noteq> [] \<and>
       amo_request e GET (AMO_BASE_URL e @ ''/api/v4/contacts'') (params (contact_query e query)) None w
         = (Inr r, w1) \<and>
       status_code r \<noteq> 200 \<longrightarrow>
       amo_find_contact e query w = (Inr JNull, w1)) \<and>
   (\<forall>d. (\<forall>v req. verb req = GET \<longrightarrow>
            (\<exists>r. crm_backend e v req = Responds r \<and> status_code r \<noteq> 200 \<and>
                 \<not> needs_retry (Responds r))) \<and>
        parse_row cells = Inr d \<and> deal_id d = [] \<longrightarrow>
        (\<exists>w1 data out.
           find_contact e [email d, phone d] w = (Inr JNull, w1) \<and>
           prefix (w1 @ [Http \<lparr>verb = POST, url = AMO_BASE_URL e @ ''/api/v4/contacts'',
                                params = [], body = Some data\<rparr> out])
             (snd (process_row e idx cells acc w))))"
proof (intro conjI allI impI)
  show "amo_find_contact e [] w = (Inr JNull, w)" by (rule amo_find_contact_empty)
next
  fix r w1
  assume "query \<noteq> [] \<and>
       amo_request e GET (AMO_BASE_URL e @ ''/api/v4/contacts'') (params (contact_query e query)) None w
         = (Inr r, w1) \<and> status_code r \<noteq> 200"
  then show "amo_find_contact e query w = (Inr JNull, w1)"
    using amo_find_contact_not_200 by blast
next
  fix d
  assume a: "(\<forall>v req. verb req = GET \<longrightarrow>
            (\<exists>r. crm_backend e v req = Responds r \<and> status_code r \<noteq> 200 \<and>
                 \<not> needs_retry (Responds r))) \<and>
        parse_row cells = Inr d \<and> deal_id d = []"
  then obtain w1 where f: "find_contact e [email d, phone d] w = (Inr JNull, w1)"
    using find_contact_refused [of e "[email d, phone d]" w] by blast
  from process_row_creates_contact [of cells d e w JNull w1 idx acc] a f
  obtain data out where "prefix (w1 @ [Http \<lparr>verb = POST, url = AMO_BASE_URL e @ ''/api/v4/contacts'',
       params = [], body = Some data\<rparr> out]) (snd (process_row e idx cells acc w))"
    by auto
  with f show "\<exists>w1 data out.
           find_contact e [email d, phone d] w = (Inr JNull, w1) \<and>
           prefix (w1 @ [Http \<lparr>verb = POST, url = AMO_BASE_URL e @ ''/api/v4/contacts'',
                                params = [], body = Some data\<rparr> out])
             (snd (process_row e idx cells acc w))"
    by blast
qed


theorem failed_lookup_is_no_match_witness:
  "(\<exists>w1 data out.
      find_contact (sheet_env [row_bob] crm_refusing_search) [''bob@mail.org'', ''8 (999) 123-45-67''] []
        = (Inr JNull, w1) \<and>
      prefix (w1 @ [Http \<lparr>verb = POST, url = ''https://crm/api/v4/contacts'',
                           params = [], body = Some data\<rparr> out])
        (snd (process_row (sheet_env [row_bob] crm_refusing_search) 0 row_bob [] []))) \<and>
   fst (process_new_rows (sheet_env [row_bob] crm_refusing_search) []) =
     Inr \<lparr>created = [\<lparr>row = 2, lead_id = JNum 555, contact_id = JNum 11\<rparr>], checked_rows = 1\<rparr> \<and>
   search_queries (snd (process_new_rows (sheet_env [row_bob] crm_refusing_search) [])) =
     [JStr ''bob@mail.org'', JStr ''79991234567''] \<and>
   requests_to ''https://crm/api/v4/contacts''
     (snd (process_new_rows (sheet_env [row_bob] crm_refusing_search) [])) = 3"
proof -
  let ?e = "sheet_env [row_bob] crm_refusing_search"
  have p: "parse_row row_bob =
      Inr \<lparr>name = ''Bob'', phone = ''8 (999) 123-45-67'', email = ''bob@mail.org'', budget = 12,
           deal_id = []\<rparr>"
    by code_simp
  have refused: "\<forall>v req. verb req = GET \<longrightarrow>
      (\<exists>r. crm_backend ?e v req = Responds r \<and> status_code r \<noteq> 200 \<and> \<not> needs_retry (Responds r))"
    by (simp add: sheet_env_def crm_refusing_search_def needs_retry_def)
  have base: "AMO_BASE_URL ?e = ''https://crm''" by (simp add: sheet_env_def)
  from failed_lookup_is_no_match [of ?e "[]" "[]" row_bob 0 "[]"] refused p
  have first: "\<exists>w1 data out.
      find_contact ?e [''bob@mail.org'', ''8 (999) 123-45-67''] [] = (Inr JNull, w1) \<and>
      prefix (w1 @ [Http \<lparr>verb = POST, url = ''https://crm/api/v4/contacts'',
                           params = [], body = Some data\<rparr> out])
        (snd (process_row ?e 0 row_bob [] []))"
    by (simp add: base)
  have run: "fst (process_new_rows ?e []) =
     Inr \<lparr>created = [\<lparr>row = 2, lead_id = JNum 555, contact_id = JNum 11\<rparr>], checked_rows = 1\<rparr> \<and>
   search_queries (snd (process_new_rows ?e [])) = [JStr ''bob@mail.org'', JStr ''79991234567''] \<and>
   requests_to ''https://crm/api/v4/contacts'' (snd (process_new_rows ?e [])) = 3"
    by code_simp
  from first run show ?thesis by (rule conjI)
qed

lemma find_contact_pair:
  "find_contact e [em, ph] w =
     sbind (if em \<noteq> [] then amo_find_contact e em w else (Inr JNull, w)) (\<lambda>cid w.
       if truthy cid then (Inr cid, w)
       else sbind (if ph \<noteq> [] then amo_find_contact e ph w else (Inr JNull, w)) (\<lambda>cid w.
              if truthy cid then (Inr cid, w) else (Inr JNull, w)))"
  by (simp add: find_contact.simps cong: if_cong)

text \<open>
  Claim C7, amended. For an unlinked row the first request is the search for the e-mail
  cell when that cell is not empty. A contact found for the e-mail is the contact of the
  deal and the phone is not searched; an error of the e-mail search is raised; the phone
  cell is searched only when the e-mail cell is empty or its search gave no contact, and
  only when the phone cell is not empty. The query string of a cell is its text when the
  text holds an \<open>@\<close> and the normalised digits of the text otherwise.
\<close>

theorem contact_resolution_order:
  "(\<forall>d. parse_row cells = Inr d \<and> deal_id d = [] \<and> email d \<noteq> [] \<longrightarrow>
      prefix (w @ [Http (contact_query e (email d)) (crm_backend e w (contact_query e (email d)))])
        (snd (process_row e idx cells acc w))) \<and>
   (\<forall>d found w1. parse_row cells = Inr d \<and> deal_id d = [] \<and>
      find_contact e [email d, phone d] w = (Inr found, w1) \<and> truthy found \<longrightarrow>
      process_row e idx cells acc w =
        sbind (amo_create_lead e (budget d) found w1) (\<lambda>lead w.
        sbind (write_deal_id e idx lead w) (\<lambda>ok w.
          (Inr (acc @ [\<lparr>row = idx + 2, lead_id = lead, contact_id = found\<rparr>]), w)))) \<and>
   (\<forall>cid w1. em \<noteq> [] \<and> amo_find_contact e em w = (Inr cid, w1) \<and> truthy cid \<longrightarrow>
      find_contact e [em, ph] w = (Inr cid, w1)) \<and>
   (\<forall>err w1. em \<noteq> [] \<and> amo_find_contact e em w = (Inl err, w1) \<longrightarrow>
      find_contact e [em, ph] w = (Inl err, w1)) \<and>
   (\<forall>cid w1. (em = [] \<and> w1 = w \<or> em \<noteq> [] \<and> amo_find_contact e em w = (Inr cid, w1) \<and> \<not> truthy cid)
      \<longrightarrow>
      (ph = [] \<longrightarrow> find_contact e [em, ph] w = (Inr JNull, w1)) \<and>
      (ph \<noteq> [] \<longrightarrow>
         find_contact e [em, ph] w =
           sbind (amo_find_contact e ph w1) (\<lambda>cid w. (Inr (if truthy cid then cid else JNull), w)) \<and>
         prefix (w1 @ [Http (contact_query e ph) (crm_backend e w1 (contact_query e ph))])
           (snd (find_contact e [em, ph] w)))) \<and>
   (CHR ''@'' \<in> set q \<longrightarrow> params (contact_query e q) = [(''query'', JStr q)]) \<and>
   (CHR ''@'' \<notin> set q \<longrightarrow> params (contact_query e q) = [(''query'', JStr (normalize_phone q))])"
proof (intro conjI allI impI)
  fix d
  assume a: "parse_row cells = Inr d \<and> deal_id d = [] \<and> email d \<noteq> []"
  let ?ev = "Http (contact_query e (email d)) (crm_backend e w (contact_query e (email d)))"
  have "prefix (w @ [?ev]) (snd (amo_find_contact e (email d) w))"
    using a by (intro amo_find_contact_first) simp
  then have "prefix (w @ [?ev]) (snd (find_contact e [email d, phone d] w))"
    unfolding find_contact_pair using a
    by (intro sbind_prefix) (auto simp: amo_find_contact_extends intro!: sbind_prefix)
  then show "prefix (w @ [?ev]) (snd (process_row e idx cells acc w))"
    using a
    by (auto simp: process_row_def
          intro!: sbind_prefix amo_create_contact_extends amo_create_lead_extends write_deal_id_extends)
next
  fix d found w1
  assume "parse_row cells = Inr d \<and> deal_id d = [] \<and>
      find_contact e [email d, phone d] w = (Inr found, w1) \<and> truthy found"
  then show "process_row e idx cells acc w =
        sbind (amo_create_lead e (budget d) found w1) (\<lambda>lead w.
        sbind (write_deal_id e idx lead w) (\<lambda>ok w.
          (Inr (acc @ [\<lparr>row = idx + 2, lead_id = lead, contact_id = found\<rparr>]), w)))"
    by (simp add: process_row_def)
next
  fix cid w1
  assume "em \<noteq> [] \<and> amo_find_contact e em w = (Inr cid, w1) \<and> truthy cid"
  then show "find_contact e [em, ph] w = (Inr cid, w1)" by (simp add: find_contact_pair)
next
  fix err w1
  assume "em \<noteq> [] \<and> amo_find_contact e em w = (Inl err, w1)"
  then show "find_contact e [em, ph] w = (Inl err, w1)" by (simp add: find_contact_pair)
next
  fix cid w1
  assume "em = [] \<and> w1 = w \<or> em \<noteq> [] \<and> amo_find_contact e em w = (Inr cid, w1) \<and> \<not> truthy cid"
    and "ph = []"
  then show "find_contact e [em, ph] w = (Inr JNull, w1)" by (auto simp: find_contact_pair)
next
  fix cid w1
  assume a: "em = [] \<and> w1 = w \<or> em \<noteq> [] \<and> amo_find_contact e em w = (Inr cid, w1) \<and> \<not> truthy cid"
    and ph: "ph \<noteq> []"
  have eq: "find_contact e [em, ph] w =
      sbind (amo_find_contact e ph w1) (\<lambda>cid w. (Inr (if truthy cid then cid else JNull), w))"
  proof (cases "amo_find_contact e ph w1")
    case (Pair res w2)
    then show ?thesis using a ph by (cases res) (auto simp: find_contact_pair)
  qed
  show "find_contact e [em, ph] w =
      sbind (amo_find_contact e ph w1) (\<lambda>cid w. (Inr (if truthy cid then cid else JNull), w))"
    by (rule eq)
  show "prefix (w1 @ [Http (contact_query e ph) (crm_backend e w1 (contact_query e ph))])
           (snd (find_contact e [em, ph] w))"
    unfolding eq snd_sbind_pure by (rule amo_find_contact_first [OF ph])
next
  assume "CHR ''@'' \<in> set q"
  then show "params (contact_query e q) = [(''query'', JStr q)]" by (simp add: contact_query_def)
next
  assume "CHR ''@'' \<notin> set q"
  then show "params (contact_query e q) = [(''query'', JStr (normalize_phone q))]"
    by (simp add: contact_query_def)
qed


text \<open>
  Claim C7, as stated, has the e-mail lookup send the raw e-mail. \<^verbatim>\<open>amo_find_contact\<close>
  decides by the character \<open>@\<close>, not by the column: an e-mail cell without \<open>@\<close> is sent
  as its digits, here as the empty string.
\<close>

theorem email_without_at_is_normalised:
  "parse_row row_no_at =
     Inr \<lparr>name = ''Bob'', phone = ''8 (999) 123-45-67'', email = ''bob.mail.org'', budget = 12,
          deal_id = []\<rparr> \<and>
   search_queries (snd (process_new_rows (sheet_env [row_no_at] crm_creating) [])) =
     [JStr [], JStr ''79991234567''] \<and>
   hd (search_queries (snd (process_new_rows (sheet_env [row_no_at] crm_creating) []))) \<noteq>
     JStr ''bob.mail.org''"
  by code_simp

theorem contact_resolution_order_witness:
  "fst (find_contact (sheet_env [row_bob] crm_knowing) [''bob@mail.org'', ''8 (999) 123-45-67''] []) =
     Inr (JNum 21) \<and>
   snd (find_contact (sheet_env [row_bob] crm_knowing) [''bob@mail.org'', ''8 (999) 123-45-67''] []) =
     snd (amo_find_contact (sheet_env [row_bob] crm_knowing) ''bob@mail.org'' []) \<and>
   params (contact_query (sheet_env [row_bob] crm_knowing) ''8 (999) 123-45-67'') =
     [(''query'', JStr ''79991234567'')] \<and>
   fst (process_new_rows (sheet_env [row_bob] crm_knowing) []) =
     Inr \<lparr>created = [\<lparr>row = 2, lead_id = JNum 555, contact_id = JNum 21\<rparr>], checked_rows = 1\<rparr> \<and>
   search_queries (snd (process_new_rows (sheet_env [row_bob] crm_knowing) [])) =
     [JStr ''bob@mail.org''] \<and>
   search_queries (snd (process_new_rows (sheet_env [row_bob] crm_creating) [])) =
     [JStr ''bob@mail.org'', JStr ''79991234567'']"
proof -
  let ?e = "sheet_env [row_bob] crm_knowing"
  let ?X = "amo_find_contact ?e ''bob@mail.org'' []"
  have found: "fst ?X = Inr (JNum 21)" by code_simp
  then have X: "?X = (Inr (JNum 21), snd ?X)" by (metis prod.collapse)
  note inst = contact_resolution_order [where e = ?e and em = "''bob@mail.org''"
      and ph = "''8 (999) 123-45-67''" and w = "[]" and q = "''8 (999) 123-45-67''"
      and cells = row_bob and idx = 0 and acc = "[]"]
  note wins = inst [THEN conjunct2, THEN conjunct2, THEN conjunct1, rule_format,
      of "JNum 21" "snd ?X"]
  have fc: "find_contact ?e [''bob@mail.org'', ''8 (999) 123-45-67''] [] = (Inr (JNum 21), snd ?X)"
    by (rule wins) (use X in simp)
  note digits = inst [THEN conjunct2, THEN conjunct2, THEN conjunct2, THEN conjunct2,
      THEN conjunct2, THEN conjunct2, rule_format]
  have np: "normalize_phone ''8 (999) 123-45-67'' = ''79991234567''" by code_simp
  have q: "params (contact_query ?e ''8 (999) 123-45-67'') = [(''query'', JStr ''79991234567'')]"
    using digits np by simp
  have run: "fst (process_new_rows ?e []) =
     Inr \<lparr>created = [\<lparr>row = 2, lead_id = JNum 555, contact_id = JNum 21\<rparr>], checked_rows = 1\<rparr> \<and>
   search_queries (snd (process_new_rows ?e [])) = [JStr ''bob@mail.org''] \<and>
   search_queries (snd (process_new_rows (sheet_env [row_bob] crm_creating) [])) =
     [JStr ''bob@mail.org'', JStr ''79991234567'']"
    by code_simp
  from fc q run show ?thesis by simp
qed

section \<open>Pull: queueing the deals\<close>







lemma queued_lengths:
  "length (queued_updates idx rs) + length (queued_appends idx rs) = length rs"
  by (induction rs) (auto simp: queued_updates_def queued_appends_def split: option.splits)

lemma queued_Cons:
  "queued_updates idx (r # rs) =
     (case idx (fst r) of Some i \<Rightarrow> [(i, snd r)] | None \<Rightarrow> []) @ queued_updates idx rs"
  "queued_appends idx (r # rs) =
     (case idx (fst r) of Some i \<Rightarrow> [] | None \<Rightarrow> [snd r]) @ queued_appends idx rs"
  by (simp_all add: queued_updates_def queued_appends_def)

lemma queue_leads_queued:
  "queue_leads e idx sm lc cm leads q0 = Inr q \<Longrightarrow>
   \<exists>rs. map (row_values e sm lc cm) leads = map Inr rs \<and>
     updates q = updates q0 @ queued_updates idx rs \<and>
     appends q = appends q0 @ queued_appends idx rs \<and>
     updated_count q = updated_count q0 + length (queued_updates idx rs) \<and>
     inserted_count q = inserted_count q0 + length (queued_appends idx rs)"
proof (induction leads arbitrary: q0)
  case Nil
  then show ?case
    by (intro exI [of _ "[]"]) (simp add: queued_updates_def queued_appends_def)
next
  case (Cons L rest)
  define q1 where "q1 = (\<lambda>lead vals. case idx lead of
            Some i \<Rightarrow> q0\<lparr>updates := updates q0 @ [(i, vals)], updated_count := updated_count q0 + 1\<rparr>
          | None \<Rightarrow> q0\<lparr>appends := appends q0 @ [vals], inserted_count := inserted_count q0 + 1\<rparr>)"
  from Cons.prems obtain lead vals where r: "row_values e sm lc cm L = Inr (lead, vals)"
    and more: "queue_leads e idx sm lc cm rest (q1 lead vals) = Inr q"
    by (auto simp: ebind_eq_Inr q1_def split: prod.splits)
  from Cons.IH [OF more]
  obtain rs where rs: "map (row_values e sm lc cm) rest = map Inr rs"
    "updates q = updates (q1 lead vals) @ queued_updates idx rs"
    "appends q = appends (q1 lead vals) @ queued_appends idx rs"
    "updated_count q = updated_count (q1 lead vals) + length (queued_updates idx rs)"
    "inserted_count q = inserted_count (q1 lead vals) + length (queued_appends idx rs)"
    by blast
  show ?case
    apply (rule exI [of _ "(lead, vals) # rs"])
    using r rs
    apply (cases "idx lead")
     apply (simp_all add: queued_Cons q1_def)
    done
qed

lemma sync_from_amocrm_steps:
  assumes "sync_from_amocrm e w = Some (Inr s, w')"
  shows "\<exists>rows w0 sm w1 leads w2 ids lc cm w3 q.
     read_sheet_all e w = (Inr rows, w0) \<and>
     get_status_map e (AMO_PIPELINE_ID e) w0 = (Inr sm, w1) \<and>
     fetch_leads_with_contacts e (AMO_PIPELINE_ID e) w1 = Some (Inr leads, w2) \<and>
     collect_contacts leads [] Map.empty = Inr (ids, lc) \<and>
     fetch_contacts_by_ids e ids w2 = (Inr cm, w3) \<and>
     queue_leads e (index_rows 0 rows Map.empty) sm lc cm leads
       \<lparr>updates = [], appends = [], updated_count = 0, inserted_count = 0\<rparr> = Inr q \<and>
     commit_sheet_changes e (updates q) (appends q) 100 w3 = (Inr (), w') \<and>
     s = \<lparr>updated = updated_count q, inserted = inserted_count q, fetched = length leads\<rparr>"
  using assms
  by (auto simp: sync_from_amocrm_def Let_def split: prod.splits sum.splits option.splits)



text \<open>
  Claim C9. When \<^verbatim>\<open>sync_from_amocrm\<close> returns a summary, \<^verbatim>\<open>updated + inserted = fetched\<close>,
  and \<^verbatim>\<open>fetched\<close> is the number of deals that \<^verbatim>\<open>fetch_leads_with_contacts\<close> returned for the
  configured pipeline: every fetched deal is counted once, as an update or as an insert.
\<close>

theorem pull_summary_counts:
  "sync_from_amocrm e w = Some (Inr s, w') \<longrightarrow>
     updated s + inserted s = fetched s \<and>
     (\<exists>rows w0 sm w1 leads w2.
        read_sheet_all e w = (Inr rows, w0) \<and>
        get_status_map e (AMO_PIPELINE_ID e) w0 = (Inr sm, w1) \<and>
        fetch_leads_with_contacts e (AMO_PIPELINE_ID e) w1 = Some (Inr leads, w2) \<and>
        fetched s = length leads)"
proof
  assume "sync_from_amocrm e w = Some (Inr s, w')"
  from sync_from_amocrm_steps [OF this]
  obtain rows w0 sm w1 leads w2 ids lc cm w3 q where st:
    "read_sheet_all e w = (Inr rows, w0)"
    "get_status_map e (AMO_PIPELINE_ID e) w0 = (Inr sm, w1)"
    "fetch_leads_with_contacts e (AMO_PIPELINE_ID e) w1 = Some (Inr leads, w2)"
    "queue_leads e (index_rows 0 rows Map.empty) sm lc cm leads
       \<lparr>updates = [], appends = [], updated_count = 0, inserted_count = 0\<rparr> = Inr q"
    "s = \<lparr>updated = updated_count q, inserted = inserted_count q, fetched = length leads\<rparr>"
    by blast
  from queue_leads_queued [OF st(4)]
  obtain rs where rs: "map (row_values e sm lc cm) leads = map Inr rs"
    "updated_count q = length (queued_updates (index_rows 0 rows Map.empty) rs)"
    "inserted_count q = length (queued_appends (index_rows 0 rows Map.empty) rs)"
    by auto
  from rs(1) have "length rs = length leads" by (metis length_map)
  then have "updated_count q + inserted_count q = length leads"
    using rs(2,3) queued_lengths [of "index_rows 0 rows Map.empty" rs] by simp
  with st show "updated s + inserted s = fetched s \<and>
     (\<exists>rows w0 sm w1 leads w2.
        read_sheet_all e w = (Inr rows, w0) \<and>
        get_status_map e (AMO_PIPELINE_ID e) w0 = (Inr sm, w1) \<and>
        fetch_leads_with_contacts e (AMO_PIPELINE_ID e) w1 = Some (Inr leads, w2) \<and>
        fetched s = length leads)"
    by auto
qed

theorem pull_summary_counts_witness:
  "map_option fst (sync_from_amocrm pull_env []) =
     Some (Inr \<lparr>updated = 1, inserted = 1, fetched = 2\<rparr>) \<and>
   updated \<lparr>updated = 1, inserted = 1, fetched = 2\<rparr> + inserted \<lparr>updated = 1, inserted = 1, fetched = 2\<rparr> =
     fetched \<lparr>updated = 1, inserted = 1, fetched = 2\<rparr> \<and>
   map_option fst (fetch_leads_with_contacts pull_env 7
      (snd (get_status_map pull_env 7 (snd (read_sheet_all pull_env []))))) =
     Some (Inr [deal_json 555 67260282 JNull, deal_json 77 5 (JNum 1500)])"
proof -
  let ?s = "\<lparr>updated = 1, inserted = 1, fetched = 2\<rparr>"
  have run: "map_option fst (sync_from_amocrm pull_env []) = Some (Inr ?s)"
    by code_simp
  then obtain w' where "sync_from_amocrm pull_env [] = Some (Inr ?s, w')"
    by (cases "sync_from_amocrm pull_env []") auto
  with pull_summary_counts [of pull_env "[]" ?s w']
  have sum: "updated ?s + inserted ?s = fetched ?s" by blast
  have leads: "map_option fst (fetch_leads_with_contacts pull_env 7
      (snd (get_status_map pull_env 7 (snd (read_sheet_all pull_env []))))) =
     Some (Inr [deal_json 555 67260282 JNull, deal_json 77 5 (JNum 1500)])"
    by code_simp
  from run sum leads show ?thesis by blast
qed





end
